theory Spec2Isabelle
  imports Main "HOL-Library.Word"
begin

unbundle bit_operations_syntax

section \<open>Bytes, hashes, errors and stored objects\<close>

text \<open>
  Go strings and byte slices are sequences of bytes: \<open>string\<close> (a \<open>char list\<close>,
  one \<open>char\<close> per byte).  A \<open>core.Hash\<close> is a fixed-width byte array; the reader
  of \<open>Tree.Decode\<close> fills it with \<open>io.ReadFull(r, hash[:])\<close>.
\<close>

type_synonym Hash = string

text \<open>
  Modelled from the spec: the width of \<open>core.Hash\<close> is declared outside the sources at
  hand; the spec calls it a fixed-width content hash, which for this object store is the
  20 bytes of SHA-1.
\<close>

definition HashSize :: nat where
  "HashSize = 20"

definition ZeroHash :: Hash where
  "ZeroHash = replicate HashSize (CHR 0x00)"

text \<open>
  The error values the code returns or compares against.  \<open>ErrSyntax\<close> and
  \<open>ErrRange\<close> are the two \<open>*strconv.NumError\<close> outcomes of
  \<open>strconv.ParseInt\<close> (the function name and the offending text they carry are left
  out: the code only tests such an error against \<open>nil\<close> and \<open>io.EOF\<close>);
  \<open>IndexOutOfRange\<close> is the run-time panic of an index out of range;
  \<open>OtherError\<close> covers every error of a storage backend or a callback that the code
  does not name.
\<close>

datatype error =
    ErrMaxTreeDepth
  | ErrFileNotFound
  | errDirNotFound
  | errEntryNotFound
  | ErrUnsupportedObject
  | ErrObjectNotFound
  | ErrStop
  | io_EOF
  | io_ErrUnexpectedEOF
  | ErrSyntax
  | ErrRange
  | IndexOutOfRange
  | OtherError string

datatype ObjectType = CommitObject | TreeObject | BlobObject | TagObject

text \<open>
  \<open>core.Object\<close> is an interface: kind, declared size, hash, and scoped access to the
  encoded body through \<open>Reader()\<close> and \<open>Writer()\<close>, either of which may fail.  The
  record is an in-memory object: \<open>Reader()\<close> yields the whole content, a writer
  appends to it, and neither reads, writes nor \<open>Close\<close> fail once the stream is open.
\<close>

record core_Object =
  otype :: ObjectType
  osize :: int
  ohash :: Hash
  ocontent :: string
  oreader_err :: "error option"
  owriter_err :: "error option"

definition Reader :: "core_Object \<Rightarrow> error + string" where
  "Reader o' = (case oreader_err o' of Some e \<Rightarrow> Inl e | None \<Rightarrow> Inr (ocontent o'))"

text \<open>\<open>ObjectStorage.Get\<close> of \<open>core/storage.go\<close>; a repository is its object storage.\<close>

type_synonym ObjectStorage = "Hash \<Rightarrow> error + core_Object"

type_synonym Repository = ObjectStorage

text \<open>\<open>os.FileMode\<close> is a \<open>uint32\<close>.\<close>

type_synonym FileMode = "32 word"

section \<open>Library functions the code calls\<close>

subsection \<open>strings.Split\<close>

text \<open>
  \<open>strings.Split(s, sep)\<close> for a one-byte separator: the pieces between the
  separators, always at least one piece (\<open>Split("", sep) = [""]\<close>).
\<close>

fun Split_from :: "char \<Rightarrow> string \<Rightarrow> string \<Rightarrow> string list" where
  "Split_from sep cur [] = [cur]"
| "Split_from sep cur (c # cs) =
     (if c = sep then cur # Split_from sep [] cs else Split_from sep (cur @ [c]) cs)"

definition Split :: "string \<Rightarrow> char \<Rightarrow> string list" where
  "Split s sep = Split_from sep [] s"

subsection \<open>os.FileMode\<close>

text \<open>
  The bits of \<open>os.FileMode\<close> the tree code sets or a caller reads back:
  \<open>ModeDir = 1 << 31\<close>, \<open>ModeSymlink = 1 << 27\<close>, the permission mask
  \<open>ModePerm = 0777\<close>, and the mask \<open>ModeType\<close> of all type bits
  (\<open>ModeDir | ModeSymlink | ModeNamedPipe | ModeSocket | ModeDevice | ModeCharDevice |
  ModeIrregular\<close>, bits 31, 27, 25, 24, 26, 21 and 19).
\<close>

definition ModeDir :: FileMode where
  "ModeDir = 0x80000000"

definition ModeSymlink :: FileMode where
  "ModeSymlink = 0x08000000"

definition ModeType :: FileMode where
  "ModeType = 0x8F280000"

definition ModePerm :: FileMode where
  "ModePerm = 0x1FF"

definition IsDir :: "FileMode \<Rightarrow> bool" where
  "IsDir m = (m AND ModeDir \<noteq> 0)"

definition IsSymlink :: "FileMode \<Rightarrow> bool" where
  "IsSymlink m = (m AND ModeSymlink \<noteq> 0)"

definition IsRegular :: "FileMode \<Rightarrow> bool" where
  "IsRegular m = (m AND ModeType = 0)"

definition Perm :: "FileMode \<Rightarrow> FileMode" where
  "Perm m = m AND ModePerm"

subsection \<open>strconv.ParseInt(s, 8, 32) and the verb %o\<close>

text \<open>
  \<open>strconv.ParseInt\<close> with base 8 and bit size 32: an optional sign, then
  \<open>ParseUint\<close> over the rest.  \<open>ParseUint\<close> reads the digits left to right; a
  byte that is not a digit below the base is a syntax error, a value above
  \<open>1<<32 - 1\<close> a range error, whichever comes first.  \<open>ParseInt\<close> then clamps to
  the signed range: a magnitude of \<open>1<<31\<close> or more (more than \<open>1<<31\<close> after a
  minus sign) is a range error.
\<close>

definition octal_digit :: "char \<Rightarrow> nat option" where
  "octal_digit d =
     (let c = (of_char d :: nat) in if 48 \<le> c \<and> c \<le> 55 then Some (c - 48) else None)"

fun ParseUint_loop :: "string \<Rightarrow> nat \<Rightarrow> error + nat" where
  "ParseUint_loop [] n = Inr n"
| "ParseUint_loop (d # ds) n =
     (case octal_digit d of
        None \<Rightarrow> Inl ErrSyntax
      | Some v \<Rightarrow>
          if n * 8 + v > 2 ^ 32 - 1 then Inl ErrRange else ParseUint_loop ds (n * 8 + v))"

definition ParseUint :: "string \<Rightarrow> error + nat" where
  "ParseUint s = (if s = [] then Inl ErrSyntax else ParseUint_loop s 0)"

fun ParseInt :: "string \<Rightarrow> int \<times> error option" where
  "ParseInt [] = (0, Some ErrSyntax)"
| "ParseInt (c # cs) =
     (let neg = (c = CHR ''-'');
          digits = (if c = CHR ''+'' \<or> c = CHR ''-'' then cs else c # cs)
      in case ParseUint digits of
           Inl err \<Rightarrow>
             if err \<noteq> ErrRange then (0, Some err)
             else if neg then (- (2 ^ 31), Some ErrRange)
             else (2 ^ 31 - 1, Some ErrRange)
         | Inr un \<Rightarrow>
             if \<not> neg \<and> un \<ge> 2 ^ 31 then (2 ^ 31 - 1, Some ErrRange)
             else if neg \<and> un > 2 ^ 31 then (- (2 ^ 31), Some ErrRange)
             else (if neg then - int un else int un, None))"

text \<open>
  \<open>fmt\<close>'s verb \<open>%o\<close> on an unsigned integer: its octal digits, most significant
  first, no leading zero (\<open>0\<close> prints as one digit).  An \<open>os.FileMode\<close> is printed
  this way: its \<open>String\<close> method is only used by \<open>%v\<close> and \<open>%s\<close>.
\<close>

fun FormatOctal :: "nat \<Rightarrow> string" where
  "FormatOctal n =
     (if n < 8 then [char_of (48 + n)]
      else FormatOctal (n div 8) @ [char_of (48 + n mod 8)])"

declare FormatOctal.simps [simp del]

subsection \<open>bufio.Reader.ReadString and io.ReadFull\<close>

text \<open>
  Both read from the front of the remaining input and return what they read, an error
  if any, and the input left.  \<open>ReadString(delim)\<close> reads up to and including the
  first \<open>delim\<close>; at the end of the input it returns what it has read with
  \<open>io.EOF\<close>.  \<open>io.ReadFull\<close> reads exactly \<open>n\<close> bytes; with none left it
  returns \<open>io.EOF\<close>, with fewer than \<open>n\<close> left \<open>io.ErrUnexpectedEOF\<close>.
\<close>

fun ReadString :: "char \<Rightarrow> string \<Rightarrow> (string \<times> error option) \<times> string" where
  "ReadString delim [] = (([], Some io_EOF), [])"
| "ReadString delim (c # cs) =
     (if c = delim then (([c], None), cs)
      else (case ReadString delim cs of ((s, err), rest) \<Rightarrow> ((c # s, err), rest)))"

definition ReadFull :: "nat \<Rightarrow> string \<Rightarrow> (string \<times> error option) \<times> string" where
  "ReadFull n inp =
     (if n \<le> length inp then ((take n inp, None), drop n inp)
      else if inp = [] then (([], Some io_EOF), [])
      else ((inp, Some io_ErrUnexpectedEOF), []))"

text \<open>The test \<open>err != nil && err != io.EOF\<close>: the error that ends the call, if any.\<close>

definition not_EOF :: "error option \<Rightarrow> error option" where
  "not_EOF err = (case err of None \<Rightarrow> None | Some e \<Rightarrow> if e = io_EOF then None else Some e)"

section \<open>Blobs and files (file.go)\<close>

text \<open>
  Modelled from the spec: \<open>Blob\<close> and \<open>Blob.Decode\<close> are declared outside the
  sources at hand.  The spec describes a blob as opaque byte content reachable through a
  readable stream, obtained by decoding a stored object; the model keeps the object and
  reads through it.
\<close>

record Blob =
  blob_obj :: core_Object

definition Blob_Decode :: "core_Object \<Rightarrow> Blob" where
  "Blob_Decode o' = \<lparr>blob_obj = o'\<rparr>"

definition Blob_Reader :: "Blob \<Rightarrow> error + string" where
  "Blob_Reader b = Reader (blob_obj b)"

record File =
  Name :: string
  Mode :: FileMode
  Blob :: Blob

definition newFile :: "string \<Rightarrow> FileMode \<Rightarrow> Blob \<Rightarrow> File" where
  "newFile name m b = \<lparr>File.Name = name, File.Mode = m, Blob = b\<rparr>"

text \<open>\<open>File.Contents\<close>: the whole content as a string, or the reader's error.\<close>

definition Contents :: "File \<Rightarrow> string \<times> error option" where
  "Contents f =
     (case Blob_Reader (Blob f) of
        Inl err \<Rightarrow> ([], Some err)
      | Inr buf \<Rightarrow> (buf, None))"

text \<open>
  \<open>File.Lines\<close>: \<open>strings.Split(content, "\n")\<close>, without its last element when
  that element is empty.  \<open>strings.Split\<close> never returns an empty slice; on one,
  \<open>splits[len(splits)-1]\<close> would be out of range.
\<close>

definition Lines :: "File \<Rightarrow> error + string list" where
  "Lines f =
     (case Contents f of
        (content, Some err) \<Rightarrow> Inl err
      | (content, None) \<Rightarrow>
          (let splits = Split content (CHR 0x0A)
           in if splits = [] then Inl IndexOutOfRange
              else if last splits = [] then Inr (butlast splits)
              else Inr splits))"

section \<open>Trees (tree.go)\<close>

definition maxTreeDepth :: nat where
  "maxTreeDepth = 1024"

record TreeEntry =
  Name :: string
  Mode :: FileMode
  Hash :: Hash

text \<open>
  The index \<open>m\<close> is \<open>nil\<close> until \<open>buildMap\<close> runs.  Its values are pointers to
  the elements of \<open>Entries\<close>; no function of the package writes to an element once
  it is appended, so the entry itself stands for the pointer.  The fields \<open>r\<close> and
  \<open>m\<close> are written \<open>tree_r\<close> and \<open>tree_m\<close>.
\<close>

record Tree =
  Entries :: "TreeEntry list"
  Hash :: Hash
  tree_r :: Repository
  tree_m :: "(string \<rightharpoonup> TreeEntry) option"

text \<open>The composite literal \<open>&Tree{r: r}\<close>: every other field has its zero value.\<close>

definition new_Tree :: "Repository \<Rightarrow> Tree" where
  "new_Tree r = \<lparr>Entries = [], Tree.Hash = ZeroHash, tree_r = r, tree_m = None\<rparr>"

subsection \<open>The entry index\<close>

fun buildMap_loop :: "TreeEntry list \<Rightarrow> (string \<rightharpoonup> TreeEntry) \<Rightarrow> (string \<rightharpoonup> TreeEntry)" where
  "buildMap_loop [] mp = mp"
| "buildMap_loop (e # es) mp = buildMap_loop es (mp(TreeEntry.Name e \<mapsto> e))"

definition buildMap :: "Tree \<Rightarrow> Tree" where
  "buildMap t = t\<lparr>tree_m := Some (buildMap_loop (Entries t) Map.empty)\<rparr>"

text \<open>
  \<open>Tree.entry\<close> returns the entry and leaves the index in the tree; the second
  component is the receiver afterwards.  (A lookup in a \<open>nil\<close> map finds nothing.)
\<close>

definition entry :: "Tree \<Rightarrow> string \<Rightarrow> (error + TreeEntry) \<times> Tree" where
  "entry t baseName =
     (let t' = (if tree_m t = None then buildMap t else t)
      in case tree_m t' of
           None \<Rightarrow> (Inl errEntryNotFound, t')
         | Some mp \<Rightarrow>
             (case mp baseName of
                None \<Rightarrow> (Inl errEntryNotFound, t')
              | Some e \<Rightarrow> (Inr e, t')))"

text \<open>
  For stating what a lookup returns: the last entry of the list that has the given
  name; when the index is present, that it was built from the current entry list; and
  a series of lookups on one tree, each on the tree the one before left.
\<close>

definition last_named :: "TreeEntry list \<Rightarrow> string \<Rightarrow> TreeEntry option" where
  "last_named es n =
     (case filter (\<lambda>e. TreeEntry.Name e = n) es of
        [] \<Rightarrow> None
      | x # xs \<Rightarrow> Some (last (x # xs)))"

definition index_ok :: "Tree \<Rightarrow> bool" where
  "index_ok t =
     (case tree_m t of
        None \<Rightarrow> True
      | Some mp \<Rightarrow> mp = buildMap_loop (Entries t) Map.empty)"

fun lookups :: "Tree \<Rightarrow> string list \<Rightarrow> (error + TreeEntry) list \<times> Tree" where
  "lookups t [] = ([], t)"
| "lookups t (n # ns) =
     (case entry t n of
        (res, t') \<Rightarrow> (case lookups t' ns of (ress, t'') \<Rightarrow> (res # ress, t'')))"

subsection \<open>Decode\<close>

definition decodeFileMode :: "string \<Rightarrow> FileMode \<times> error option" where
  "decodeFileMode mode =
     (case ParseInt mode of
        (fm, err) \<Rightarrow>
          (case not_EOF err of
             Some e \<Rightarrow> (0, Some e)
           | None \<Rightarrow>
               (let m = (word_of_int fm :: FileMode)
                in (if fm = 16384 then m OR ModeDir
                    else if fm = 40960 then m OR ModeSymlink
                    else m, None))))"

text \<open>
  One turn of the loop of \<open>Tree.Decode\<close>: the loop ends (\<open>Break\<close>) when the mode
  cannot be read up to a space, fails, or appends one entry and goes on with the rest
  of the input.  \<open>name[:len(name)-1]\<close> is only reached with the terminating NUL read:
  a name that runs into the end of the input leaves nothing for \<open>io.ReadFull\<close>.
\<close>

datatype step = Break | Fail error | Append TreeEntry string

definition Decode_step :: "string \<Rightarrow> step" where
  "Decode_step inp =
     (case ReadString (CHR '' '') inp of
        ((mode, Some err), rest) \<Rightarrow> if err = io_EOF then Break else Fail err
      | ((mode, None), rest) \<Rightarrow>
          (case decodeFileMode (butlast mode) of
             (fm, err) \<Rightarrow>
               (case not_EOF err of
                  Some e \<Rightarrow> Fail e
                | None \<Rightarrow>
                    (case ReadString (CHR 0x00) rest of
                       ((name, err), rest) \<Rightarrow>
                         (case not_EOF err of
                            Some e \<Rightarrow> Fail e
                          | None \<Rightarrow>
                              (case ReadFull HashSize rest of
                                 ((hash, Some e), rest) \<Rightarrow> Fail e
                               | ((hash, None), rest) \<Rightarrow>
                                   Append \<lparr>TreeEntry.Name = butlast name,
                                           TreeEntry.Mode = fm,
                                           TreeEntry.Hash = hash\<rparr> rest))))))"

function Decode_loop :: "string \<Rightarrow> TreeEntry list \<Rightarrow> error option \<times> TreeEntry list" where
  "Decode_loop inp es =
     (case Decode_step inp of
        Break \<Rightarrow> (None, es)
      | Fail err \<Rightarrow> (Some err, es)
      | Append e rest \<Rightarrow> Decode_loop rest (es @ [e]))"
  by pat_completeness auto
termination
proof (relation "measure (\<lambda>(inp, es). length inp)")
  show "wf (measure (\<lambda>(inp, es). length inp))"
    by simp
next
  fix inp :: string and es :: "TreeEntry list" and e rest
  assume step: "Decode_step inp = Append e rest"
  have shorter: "length r \<le> length i" if "ReadString delim i = ((s, err), r)"
    for delim i s err r
    using that by (induction i arbitrary: s err r) (auto split: if_splits prod.splits)
  have found: "length r < length i" if "ReadString delim i = ((s, None), r)"
    for delim i s r
    using that by (induction i arbitrary: s r) (auto split: if_splits prod.splits)
  from step obtain mode r1 name err r2 hash where
    a: "ReadString (CHR '' '') inp = ((mode, None), r1)" and
    b: "ReadString (CHR 0x00) r1 = ((name, err), r2)" and
    c: "ReadFull HashSize r2 = ((hash, None), rest)"
    by (auto simp: Decode_step_def split: prod.splits option.splits if_splits)
  from a have "length r1 < length inp" by (rule found)
  moreover from b have "length r2 \<le> length r1" by (rule shorter)
  moreover from c have "length rest \<le> length r2"
    by (auto simp: ReadFull_def split: if_splits)
  ultimately show "((rest, es @ [e]), (inp, es)) \<in> measure (\<lambda>(inp, es). length inp)"
    by simp
qed

declare Decode_loop.simps [simp del]

text \<open>
  \<open>Tree.Decode\<close>: the error returned and the receiver afterwards.  An error inside
  the loop leaves the entries appended so far in the receiver.
\<close>

definition Decode :: "Tree \<Rightarrow> core_Object \<Rightarrow> error option \<times> Tree" where
  "Decode t o' =
     (if otype o' \<noteq> TreeObject then (Some ErrUnsupportedObject, t)
      else
        let t1 = t\<lparr>Tree.Hash := ohash o'\<rparr>
        in if osize o' = 0 then (None, t1)
           else
             let t2 = t1\<lparr>Entries := [], tree_m := None\<rparr>
             in case Reader o' of
                  Inl err \<Rightarrow> (Some err, t2)
                | Inr body \<Rightarrow>
                    (case Decode_loop body (Entries t2) of
                       (err, es) \<Rightarrow> (err, t2\<lparr>Entries := es\<rparr>)))"

subsection \<open>Encode\<close>

text \<open>
  The loop of \<open>Tree.Encode\<close> over the bytes written so far and the running
  \<open>size\<close> (written \<open>sz\<close>): \<open>fmt.Fprintf(w, "%o %s", entry.Mode, entry.Name)\<close>, one NUL byte,
  the hash.
\<close>

fun Encode_loop :: "TreeEntry list \<Rightarrow> string \<times> nat \<Rightarrow> string \<times> nat" where
  "Encode_loop [] ws = ws"
| "Encode_loop (e # es) (w, sz) =
     (let s = FormatOctal (unat (TreeEntry.Mode e)) @ '' '' @ TreeEntry.Name e;
          w = w @ s; sz = sz + length s;
          w = w @ [CHR 0x00]; sz = sz + 1;
          w = w @ TreeEntry.Hash e; sz = sz + length (TreeEntry.Hash e)
      in Encode_loop es (w, sz))"

definition Encode :: "Tree \<Rightarrow> core_Object \<Rightarrow> error option \<times> core_Object" where
  "Encode t o' =
     (let o1 = o'\<lparr>otype := TreeObject\<rparr>
      in case owriter_err o1 of
           Some err \<Rightarrow> (Some err, o1)
         | None \<Rightarrow>
             (case Encode_loop (Entries t) ([], 0) of
                (w, sz) \<Rightarrow>
                  (None, o1\<lparr>ocontent := ocontent o1 @ w, osize := int sz\<rparr>)))"

text \<open>
  For stating the round trip: one record of the wire format,
  \<open><octal-mode> <space> <name> <NUL> <raw-hash>\<close>; the entries the format can hold
  (a name without a NUL byte, a hash of the fixed width); and the modes whose octal text
  \<open>decodeFileMode\<close> reads back unchanged (within \<open>int32\<close> and neither 040000
  nor 0120000, to which it adds a flag).
\<close>

definition wire_record :: "TreeEntry \<Rightarrow> string" where
  "wire_record e =
     FormatOctal (unat (TreeEntry.Mode e)) @ '' '' @ TreeEntry.Name e @ [CHR 0x00]
       @ TreeEntry.Hash e"

definition wire_entry :: "TreeEntry \<Rightarrow> bool" where
  "wire_entry e = (CHR 0x00 \<notin> set (TreeEntry.Name e) \<and> length (TreeEntry.Hash e) = HashSize)"

definition stable_mode :: "FileMode \<Rightarrow> bool" where
  "stable_mode m = (unat m < 2 ^ 31 \<and> m \<noteq> 16384 \<and> m \<noteq> 40960)"

subsection \<open>Path resolution\<close>

definition dir :: "Tree \<Rightarrow> string \<Rightarrow> (error + Tree) \<times> Tree" where
  "dir t baseName =
     (case entry t baseName of
        (Inl err, t') \<Rightarrow> (Inl errDirNotFound, t')
      | (Inr e, t') \<Rightarrow>
          (case tree_r t' (TreeEntry.Hash e) of
             Inl err \<Rightarrow>
               if err = ErrObjectNotFound then (Inl errDirNotFound, t') else (Inl err, t')
           | Inr obj \<Rightarrow>
               if otype obj \<noteq> TreeObject then (Inl errDirNotFound, t')
               else (Inr (snd (Decode (new_Tree (tree_r t')) obj)), t')))"

text \<open>
  The loop of \<open>Tree.findEntry\<close> over \<open>pathParts\<close>.  The second component is the
  tree the loop started from, afterwards: the trees it descends into are its own.
\<close>

fun findEntry_loop :: "Tree \<Rightarrow> string list \<Rightarrow> (error + TreeEntry) \<times> Tree" where
  "findEntry_loop tree [] = (Inl IndexOutOfRange, tree)"
| "findEntry_loop tree [p] = entry tree p"
| "findEntry_loop tree (p # q # ps) =
     (case dir tree p of
        (Inl err, tree') \<Rightarrow> (Inl err, tree')
      | (Inr sub, tree') \<Rightarrow> (fst (findEntry_loop sub (q # ps)), tree'))"

definition findEntry :: "Tree \<Rightarrow> string \<Rightarrow> (error + TreeEntry) \<times> Tree" where
  "findEntry t path = findEntry_loop t (Split path (CHR ''/''))"

text \<open>
  For stating what \<open>findEntry\<close> does with the segments before the last: descend
  through them from a tree, each step the result of \<open>dir\<close> on the tree reached.
\<close>

fun descend :: "Tree \<Rightarrow> string list \<Rightarrow> error + Tree" where
  "descend t [] = Inr t"
| "descend t (p # ps) =
     (case fst (dir t p) of
        Inl err \<Rightarrow> Inl err
      | Inr sub \<Rightarrow> descend sub ps)"

text \<open>
  \<open>Tree.File\<close>.  \<open>blob.Decode(obj)\<close> is only reached with a blob object.
\<close>

definition Tree_File :: "Tree \<Rightarrow> string \<Rightarrow> (error + File) \<times> Tree" where
  "Tree_File t path =
     (case findEntry t path of
        (Inl err, t') \<Rightarrow> (Inl ErrFileNotFound, t')
      | (Inr e, t') \<Rightarrow>
          (case tree_r t' (TreeEntry.Hash e) of
             Inl err \<Rightarrow>
               if err = ErrObjectNotFound then (Inl ErrFileNotFound, t') else (Inl err, t')
           | Inr obj \<Rightarrow>
               if otype obj \<noteq> BlobObject then (Inl ErrFileNotFound, t')
               else (Inr (newFile path (TreeEntry.Mode e) (Blob_Decode obj)), t')))"

subsection \<open>treeEntryIter\<close>

record treeEntryIter =
  iter_t :: Tree
  iter_pos :: nat

definition treeEntryIter_Next :: "treeEntryIter \<Rightarrow> (error + TreeEntry) \<times> treeEntryIter" where
  "treeEntryIter_Next iter =
     (if iter_pos iter \<ge> length (Entries (iter_t iter)) then (Inl io_EOF, iter)
      else (Inr (Entries (iter_t iter) ! iter_pos iter), iter\<lparr>iter_pos := iter_pos iter + 1\<rparr>))"

section \<open>The tree walker\<close>

text \<open>
  What a walker yields with each entry: the package's \<open>Object\<close> interface, which
  the iterators test with \<open>obj.(*Tree)\<close> and \<open>obj.(*Blob)\<close>.
\<close>

datatype Object = TreeObj Tree | BlobObj Blob | OtherObj core_Object

text \<open>
  \<open>TreeWalker\<close> is declared outside the sources at hand; \<open>tree.go\<close> and
  \<open>file.go\<close> use \<open>NewTreeWalker(r, t)\<close>, the fields \<open>w.r\<close> and \<open>w.t\<close>,
  \<open>w.Next()\<close> and \<open>w.Close()\<close>.  The iterators below take these five as an
  implementation \<open>impl\<close> over any walker state \<open>'w\<close>.
\<close>

record 'w walker_impl =
  impl_New :: "Repository \<Rightarrow> Tree \<Rightarrow> 'w"
  impl_r :: "'w \<Rightarrow> Repository"
  impl_t :: "'w \<Rightarrow> Tree"
  impl_Next :: "'w \<Rightarrow> (error + string \<times> TreeEntry \<times> Object) \<times> 'w"
  impl_Close :: "'w \<Rightarrow> 'w"

subsection \<open>The walker of the specification\<close>

text \<open>
  Modelled from the spec: \<open>TreeWalker\<close>, \<open>NewTreeWalker\<close>, \<open>TreeWalker.Next\<close>
  and \<open>TreeWalker.Close\<close> are declared outside the sources at hand.  The spec
  (4.4): the state is a stack of frames, a frame being a tree and a cursor into its
  entries (the \<open>treeEntryIter\<close> of \<open>tree.go\<close>); the walker is created on the root
  tree.  To advance: if the top frame has entries left, take the next one, resolve its
  object by hash and yield the full path (the parent path joined to the entry's name
  with a slash), the entry and the object; if the object is a tree, push a frame for it,
  after checking the prospective depth against \<open>maxTreeDepth\<close>: exceeding it fails
  with \<open>ErrMaxTreeDepth\<close>.  If the top frame is exhausted, pop it and retry; with no
  frame left, signal the end with \<open>io.EOF\<close>.  Storage and decode errors are passed on.
  Closing releases what the walker holds and is idempotent.
\<close>

record TreeWalker =
  walker_r :: Repository
  walker_t :: Tree
  stack :: "treeEntryIter list"
  base :: string

definition NewTreeWalker :: "Repository \<Rightarrow> Tree \<Rightarrow> TreeWalker" where
  "NewTreeWalker r t =
     \<lparr>walker_r = r, walker_t = t, stack = [\<lparr>iter_t = t, iter_pos = 0\<rparr>], base = []\<rparr>"

definition resolve :: "Repository \<Rightarrow> Hash \<Rightarrow> error + Object" where
  "resolve r h =
     (case r h of
        Inl err \<Rightarrow> Inl err
      | Inr obj \<Rightarrow>
          if otype obj = TreeObject then
            (case Decode (new_Tree r) obj of
               (Some err, t) \<Rightarrow> Inl err
             | (None, t) \<Rightarrow> Inr (TreeObj t))
          else if otype obj = BlobObject then Inr (BlobObj (Blob_Decode obj))
          else Inr (OtherObj obj))"

definition path_Join :: "string \<Rightarrow> string \<Rightarrow> string" where
  "path_Join parent name = (if parent = [] then name else parent @ ''/'' @ name)"

fun path_Parent_of :: "string list \<Rightarrow> string" where
  "path_Parent_of [] = []"
| "path_Parent_of [p] = []"
| "path_Parent_of (p # q # ps) = path_Join p (path_Parent_of (q # ps))"

definition path_Parent :: "string \<Rightarrow> string" where
  "path_Parent p = path_Parent_of (Split p (CHR ''/''))"

fun Next_frames ::
  "Repository \<Rightarrow> treeEntryIter list \<Rightarrow> string \<Rightarrow>
   (error + string \<times> TreeEntry \<times> Object) \<times> treeEntryIter list \<times> string" where
  "Next_frames r [] b = (Inl io_EOF, [], b)"
| "Next_frames r (fr # frs) b =
     (case treeEntryIter_Next fr of
        (Inl err, fr') \<Rightarrow> Next_frames r frs (path_Parent b)
      | (Inr e, fr') \<Rightarrow>
          (case resolve r (TreeEntry.Hash e) of
             Inl err \<Rightarrow> (Inl err, fr' # frs, b)
           | Inr obj \<Rightarrow>
               (let name = path_Join b (TreeEntry.Name e)
                in case obj of
                     TreeObj sub \<Rightarrow>
                       if length (fr' # frs) + 1 > maxTreeDepth
                       then (Inl ErrMaxTreeDepth, fr' # frs, b)
                       else (Inr (name, e, obj),
                             \<lparr>iter_t = sub, iter_pos = 0\<rparr> # fr' # frs, name)
                   | BlobObj blob \<Rightarrow> (Inr (name, e, obj), fr' # frs, b)
                   | OtherObj other \<Rightarrow> (Inr (name, e, obj), fr' # frs, b))))"

definition TreeWalker_Next ::
  "TreeWalker \<Rightarrow> (error + string \<times> TreeEntry \<times> Object) \<times> TreeWalker" where
  "TreeWalker_Next w =
     (case Next_frames (walker_r w) (stack w) (base w) of
        (res, frames, b) \<Rightarrow> (res, w\<lparr>stack := frames, base := b\<rparr>))"

definition TreeWalker_Close :: "TreeWalker \<Rightarrow> TreeWalker" where
  "TreeWalker_Close w = w\<lparr>stack := []\<rparr>"

definition TreeWalker_impl :: "TreeWalker walker_impl" where
  "TreeWalker_impl =
     \<lparr>impl_New = NewTreeWalker, impl_r = walker_r, impl_t = walker_t,
      impl_Next = TreeWalker_Next, impl_Close = TreeWalker_Close\<rparr>"

text \<open>
  Repeated calls of \<open>Next\<close>, at most \<open>n\<close>, up to the first error: the paths
  yielded, the error that ended the walk if one did, and the walker afterwards.
\<close>

fun walk :: "nat \<Rightarrow> TreeWalker \<Rightarrow> string list \<times> error option \<times> TreeWalker" where
  "walk 0 w = ([], None, w)"
| "walk (Suc n) w =
     (case TreeWalker_Next w of
        (Inl err, w') \<Rightarrow> ([], Some err, w')
      | (Inr (name, e, obj), w') \<Rightarrow>
          (case walk n w' of (names, res, w'') \<Rightarrow> (name # names, res, w'')))"

section \<open>The filtered iterators\<close>

text \<open>
  \<open>TreeIter\<close> and \<open>FileIter\<close> are structs of one field, the walker \<open>w\<close>; an
  iterator is written as its walker.  Their \<open>Next\<close> loops until the walker yields an
  object of the wanted kind or fails; a loop that never ends is the value \<open>None\<close>.
\<close>

partial_function (option) TreeIter_Next ::
  "'w walker_impl \<Rightarrow> 'w \<Rightarrow> ((error + Tree) \<times> 'w) option" where
  "TreeIter_Next impl w =
     (case impl_Next impl w of
        (Inl err, w') \<Rightarrow> Some (Inl err, w')
      | (Inr (name, e, obj), w') \<Rightarrow>
          (case obj of
             TreeObj tree \<Rightarrow> Some (Inr tree, w')
           | BlobObj blob \<Rightarrow> TreeIter_Next impl w'
           | OtherObj other \<Rightarrow> TreeIter_Next impl w'))"

partial_function (option) FileIter_Next ::
  "'w walker_impl \<Rightarrow> 'w \<Rightarrow> ((error + File) \<times> 'w) option" where
  "FileIter_Next impl w =
     (case impl_Next impl w of
        (Inl err, w') \<Rightarrow> Some (Inl err, w')
      | (Inr (name, e, obj), w') \<Rightarrow>
          (case obj of
             BlobObj blob \<Rightarrow> Some (Inr (newFile name (TreeEntry.Mode e) blob), w')
           | TreeObj tree \<Rightarrow> FileIter_Next impl w'
           | OtherObj other \<Rightarrow> FileIter_Next impl w'))"

text \<open>
  The loop of both \<open>ForEach\<close> methods, the same text in \<open>tree.go\<close> and
  \<open>file.go\<close> up to the iterator's \<open>Next\<close>.  The callback is a Go closure: it
  returns an error or \<open>nil\<close> and may change the state \<open>'s\<close> it closes over.  The
  result is the error \<open>ForEach\<close> returns, the iterator and the callback's state.
\<close>

partial_function (option) ForEach_loop ::
  "('w \<Rightarrow> ((error + 'a) \<times> 'w) option) \<Rightarrow> ('a \<Rightarrow> 's \<Rightarrow> error option \<times> 's) \<Rightarrow>
   'w \<Rightarrow> 's \<Rightarrow> (error option \<times> 'w \<times> 's) option" where
  "ForEach_loop nxt cb w s =
     (case nxt w of
        None \<Rightarrow> None
      | Some (Inl err, w') \<Rightarrow> Some (if err = io_EOF then None else Some err, w', s)
      | Some (Inr x, w') \<Rightarrow>
          (case cb x s of
             (Some err, s') \<Rightarrow> Some (if err = ErrStop then None else Some err, w', s')
           | (None, s') \<Rightarrow> ForEach_loop nxt cb w' s'))"

text \<open>
  \<open>TreeIter.ForEach\<close>: \<open>defer iter.Close()\<close> closes the receiver's walker when
  the loop returns.
\<close>

definition TreeIter_ForEach ::
  "'w walker_impl \<Rightarrow> 'w \<Rightarrow> (Tree \<Rightarrow> 's \<Rightarrow> error option \<times> 's) \<Rightarrow> 's \<Rightarrow>
   (error option \<times> 'w \<times> 's) option" where
  "TreeIter_ForEach impl iter cb s =
     (case ForEach_loop (TreeIter_Next impl) cb iter s of
        None \<Rightarrow> None
      | Some (res, iter', s') \<Rightarrow> Some (res, impl_Close impl iter', s'))"

text \<open>
  \<open>FileIter.ForEach\<close>: the loop runs on the new iterator \<open>i\<close>, and
  \<open>defer i.Close()\<close> closes that one.  The result is the error returned, the receiver
  afterwards, the iterator \<open>i\<close> as the call leaves it, and the callback's state.
\<close>

definition FileIter_ForEach ::
  "'w walker_impl \<Rightarrow> 'w \<Rightarrow> (File \<Rightarrow> 's \<Rightarrow> error option \<times> 's) \<Rightarrow> 's \<Rightarrow>
   (error option \<times> 'w \<times> 'w \<times> 's) option" where
  "FileIter_ForEach impl iter cb s =
     (let i = impl_New impl (impl_r impl iter) (impl_t impl iter)
      in case ForEach_loop (FileIter_Next impl) cb i s of
           None \<Rightarrow> None
         | Some (res, i', s') \<Rightarrow> Some (res, iter, impl_Close impl i', s'))"

text \<open>
  For stating what \<open>ForEach\<close> does: the iterator after its \<open>Next\<close> produced
  exactly the given items, in this order; and the callback's state after it was called
  once on each of the given items, in this order, and returned \<open>nil\<close> each time.
\<close>

fun produced :: "('w \<Rightarrow> ((error + 'a) \<times> 'w) option) \<Rightarrow> 'w \<Rightarrow> 'a list \<Rightarrow> 'w option" where
  "produced nxt w [] = Some w"
| "produced nxt w (x # xs) =
     (case nxt w of
        None \<Rightarrow> None
      | Some (Inl err, w') \<Rightarrow> None
      | Some (Inr y, w') \<Rightarrow> if y = x then produced nxt w' xs else None)"

fun delivered :: "('a \<Rightarrow> 's \<Rightarrow> error option \<times> 's) \<Rightarrow> 'a list \<Rightarrow> 's \<Rightarrow> 's option" where
  "delivered cb [] s = Some s"
| "delivered cb (x # xs) s =
     (case cb x s of
        (None, s') \<Rightarrow> delivered cb xs s'
      | (Some err, s') \<Rightarrow> None)"

text \<open>
  Any walker with a count of the calls of \<open>Close\<close> beside its state, to tell a
  walker closed once from one never closed or closed twice.
\<close>

definition counting :: "'w walker_impl \<Rightarrow> ('w \<times> nat) walker_impl" where
  "counting impl =
     \<lparr>impl_New = (\<lambda>r t. (impl_New impl r t, 0)),
      impl_r = (\<lambda>(w, c). impl_r impl w),
      impl_t = (\<lambda>(w, c). impl_t impl w),
      impl_Next = (\<lambda>(w, c). case impl_Next impl w of (res, w') \<Rightarrow> (res, (w', c))),
      impl_Close = (\<lambda>(w, c). (impl_Close impl w, Suc c))\<rparr>"

section \<open>Example objects\<close>

text \<open>A stored in-memory object of the given kind, hash and content.\<close>

definition mem_object :: "ObjectType \<Rightarrow> Hash \<Rightarrow> string \<Rightarrow> core_Object" where
  "mem_object k h c =
     \<lparr>otype = k, osize = int (length c), ohash = h, ocontent = c,
      oreader_err = None, owriter_err = None\<rparr>"

text \<open>A repository that stores nothing.\<close>

definition empty_repo :: Repository where
  "empty_repo h = Inl ErrObjectNotFound"

text \<open>A tree whose entry list has the name \<open>a\<close> twice; its index is not built yet.\<close>

definition dup_first :: TreeEntry where
  "dup_first = \<lparr>TreeEntry.Name = ''a'', TreeEntry.Mode = 0x81A4,
                 TreeEntry.Hash = replicate 20 (CHR 0x01)\<rparr>"

definition dup_other :: TreeEntry where
  "dup_other = \<lparr>TreeEntry.Name = ''b'', TreeEntry.Mode = 0x81A4,
                 TreeEntry.Hash = replicate 20 (CHR 0x02)\<rparr>"

definition dup_last :: TreeEntry where
  "dup_last = \<lparr>TreeEntry.Name = ''a'', TreeEntry.Mode = 0x81ED,
                TreeEntry.Hash = replicate 20 (CHR 0x03)\<rparr>"

definition dup_tree :: Tree where
  "dup_tree = (new_Tree empty_repo)\<lparr>Entries := [dup_first, dup_other, dup_last]\<rparr>"

text \<open>
  An empty writable object, as \<open>NewObject()\<close> hands out; the decoded entry of a
  directory \<open>d\<close>; and the bodies of three tree objects: one directory \<open>d\<close> as
  git writes it, the same as \<open>Tree.Encode\<close> writes it, and one file \<open>a\<close> with a
  zero before its mode.
\<close>

definition new_object :: core_Object where
  "new_object = mem_object BlobObject ZeroHash []"

definition dir_entry :: TreeEntry where
  "dir_entry = \<lparr>TreeEntry.Name = ''d'', TreeEntry.Mode = 0x80004000,
                 TreeEntry.Hash = replicate 20 (CHR 0x04)\<rparr>"

definition git_dir_body :: string where
  "git_dir_body = ''40000 d'' @ [CHR 0x00] @ replicate 20 (CHR 0x04)"

definition encoded_dir_body :: string where
  "encoded_dir_body = ''20000040000 d'' @ [CHR 0x00] @ replicate 20 (CHR 0x04)"

definition padded_file_body :: string where
  "padded_file_body = ''0100644 a'' @ [CHR 0x00] @ replicate 20 (CHR 0x01)"

text \<open>
  A repository of \<open>n\<close> nested directories: directory \<open>i\<close> (from 1, the root, to
  \<open>n\<close>) is stored under the hash \<open>hash_of i\<close> and holds one entry, the directory
  \<open>d\<close> with hash \<open>hash_of (i + 1)\<close>, but for directory \<open>n\<close>, which holds the
  file \<open>f\<close>; the blob of that file is stored under \<open>hash_of 0\<close>.  The hash
  \<open>hash_of i\<close> writes \<open>i\<close> in its first two bytes, and \<open>level\<close> reads it back.
\<close>

definition hash_of :: "nat \<Rightarrow> Hash" where
  "hash_of i = [char_of (i mod 256), char_of (i div 256)] @ replicate 18 (CHR 0x00)"

definition level :: "Hash \<Rightarrow> nat" where
  "level h = (case h of a # b # rest \<Rightarrow> of_char a + 256 * of_char b | _ \<Rightarrow> 0)"

definition chain_body :: "nat \<Rightarrow> nat \<Rightarrow> string" where
  "chain_body n i =
     (if i < n then ''40000 d'' @ [CHR 0x00] @ hash_of (i + 1)
      else ''100644 f'' @ [CHR 0x00] @ hash_of 0)"

definition chain_repo :: "nat \<Rightarrow> Repository" where
  "chain_repo n h =
     (let i = level h
      in if h \<noteq> hash_of i then Inl ErrObjectNotFound
         else if i = 0 then Inr (mem_object BlobObject h ''hello'')
         else if i \<le> n then Inr (mem_object TreeObject h (chain_body n i))
         else Inl ErrObjectNotFound)"

definition chain_entry :: "nat \<Rightarrow> nat \<Rightarrow> TreeEntry" where
  "chain_entry n i =
     (if i < n
      then \<lparr>TreeEntry.Name = ''d'', TreeEntry.Mode = 0x80004000, TreeEntry.Hash = hash_of (i + 1)\<rparr>
      else \<lparr>TreeEntry.Name = ''f'', TreeEntry.Mode = 0x81A4, TreeEntry.Hash = hash_of 0\<rparr>)"

definition chain_tree :: "nat \<Rightarrow> nat \<Rightarrow> Tree" where
  "chain_tree n i =
     (new_Tree (chain_repo n))\<lparr>Entries := [chain_entry n i], Tree.Hash := hash_of i\<rparr>"

definition chain_root :: "nat \<Rightarrow> Tree" where
  "chain_root n = chain_tree n (Suc 0)"

text \<open>
  The walker on that repository after \<open>k\<close> directories were yielded: the frame of
  directory \<open>k + 1\<close> on top, not yet read, above the frames of the directories
  \<open>k\<close> down to 1, each read past its one entry; the base path is \<open>d/d/...\<close>,
  \<open>k\<close> segments long.
\<close>

fun chain_path :: "nat \<Rightarrow> string" where
  "chain_path 0 = []"
| "chain_path (Suc k) = path_Join (chain_path k) ''d''"

fun chain_below :: "nat \<Rightarrow> nat \<Rightarrow> treeEntryIter list" where
  "chain_below n 0 = []"
| "chain_below n (Suc k) = \<lparr>iter_t = chain_tree n (Suc k), iter_pos = 1\<rparr> # chain_below n k"

definition chain_walker :: "nat \<Rightarrow> nat \<Rightarrow> TreeWalker" where
  "chain_walker n k =
     \<lparr>walker_r = chain_repo n, walker_t = chain_root n,
      stack = \<lparr>iter_t = chain_tree n (Suc k), iter_pos = 0\<rparr> # chain_below n k,
      base = chain_path k\<rparr>"

text \<open>
  The walker over two nested directories, counting its \<open>Close\<close> calls: as created,
  after it yielded the directory \<open>d\<close>, and after it yielded the file \<open>d/f\<close>; the
  tree and the file it yields; and two callbacks that keep a log, one returning
  \<open>nil\<close> and one returning a given error.
\<close>

definition walker2_new :: TreeWalker where
  "walker2_new = chain_walker 2 0"

definition walker2_in_d :: TreeWalker where
  "walker2_in_d = chain_walker 2 (Suc 0)"

definition walker2_past_f :: TreeWalker where
  "walker2_past_f = (chain_walker 2 (Suc 0))\<lparr>stack := chain_below 2 2\<rparr>"

definition walker2_end :: TreeWalker where
  "walker2_end = snd (TreeWalker_Next walker2_past_f)"

definition file_d_f :: File where
  "file_d_f = newFile ''d/f'' 0x81A4 (Blob_Decode (mem_object BlobObject (hash_of 0) ''hello''))"

definition log_tree :: "error option \<Rightarrow> Tree \<Rightarrow> Hash list \<Rightarrow> error option \<times> Hash list" where
  "log_tree res t seen = (res, seen @ [Tree.Hash t])"

definition log_file :: "error option \<Rightarrow> File \<Rightarrow> string list \<Rightarrow> error option \<times> string list" where
  "log_file res f seen = (res, seen @ [File.Name f])"

text \<open>
  A tree with one entry of mode 160000 whose hash is that of a commit object, and a
  repository that stores this commit.
\<close>

definition commit_hash :: Hash where
  "commit_hash = replicate 20 (CHR 0x09)"

definition module_entry :: TreeEntry where
  "module_entry = \<lparr>TreeEntry.Name = ''m'', TreeEntry.Mode = 0xE000, TreeEntry.Hash = commit_hash\<rparr>"

definition module_repo :: Repository where
  "module_repo h =
     (if h = commit_hash then Inr (mem_object CommitObject commit_hash ''tree'')
      else Inl ErrObjectNotFound)"

definition module_tree :: Tree where
  "module_tree = (new_Tree module_repo)\<lparr>Entries := [module_entry]\<rparr>"

text \<open>A repository whose storage fails on every read, and a tree of one entry on it.\<close>

definition failing_repo :: Repository where
  "failing_repo h = Inl (OtherError ''disk'')"

definition failing_tree :: Tree where
  "failing_tree = (new_Tree failing_repo)\<lparr>Entries := [dup_first]\<rparr>"

section \<open>Properties of Split\<close>

lemma Split_from_nonempty: "Split_from sep cur s \<noteq> []"
  by (induction s arbitrary: cur) auto

lemma Split_nonempty: "Split s sep \<noteq> []"
  by (simp add: Split_def Split_from_nonempty)

lemma last_Split_from:
  "last (Split_from sep cur s) = [] \<longleftrightarrow> (if s = [] then cur = [] else last s = sep)"
proof (induction s arbitrary: cur)
  case Nil
  show ?case by simp
next
  case (Cons c cs)
  show ?case
  proof (cases "c = sep")
    case True
    then show ?thesis
      using Cons.IH [of "[]"] by (simp add: Split_from_nonempty)
  next
    case False
    then show ?thesis
      using Cons.IH [of "cur @ [c]"] by (cases cs) auto
  qed
qed

lemma last_Split_empty:
  "last (Split s sep) = [] \<longleftrightarrow> (s = [] \<or> last s = sep)"
  by (simp add: Split_def last_Split_from)

section \<open>File.Lines\<close>

text \<open>
  C10.  When the content of a file reads successfully as the string \<open>s\<close>,
  \<open>File.Lines\<close> returns \<open>s\<close> split on the newline byte, except that the final
  split element is dropped when it is empty, which is the case exactly when \<open>s\<close> ends
  in a newline or is empty; so the empty content gives the empty list.
\<close>

theorem Lines_splits_and_strips_last:
  assumes "Contents f = (s, None)"
  shows "Lines f = Inr (if last (Split s (CHR 0x0A)) = []
                        then butlast (Split s (CHR 0x0A))
                        else Split s (CHR 0x0A))
       \<and> (last (Split s (CHR 0x0A)) = [] \<longleftrightarrow> s = [] \<or> last s = CHR 0x0A)
       \<and> (s = [] \<longrightarrow> Lines f = Inr [])"
  using assms by (simp add: Lines_def Split_nonempty last_Split_empty) (simp add: Split_def)

theorem Lines_witness:
  "Contents (newFile ''a.txt'' 0x81A4
       (Blob_Decode (mem_object BlobObject ZeroHash [CHR ''a'', CHR 0x0A, CHR ''b'', CHR 0x0A])))
     = ([CHR ''a'', CHR 0x0A, CHR ''b'', CHR 0x0A], None)
   \<and> Lines (newFile ''a.txt'' 0x81A4
       (Blob_Decode (mem_object BlobObject ZeroHash [CHR ''a'', CHR 0x0A, CHR ''b'', CHR 0x0A])))
     = Inr [''a'', ''b'']
   \<and> Lines (newFile ''b.txt'' 0x81A4
       (Blob_Decode (mem_object BlobObject ZeroHash [CHR ''a'', CHR 0x0A, CHR ''b''])))
     = Inr [''a'', ''b'']
   \<and> Lines (newFile ''c.txt'' 0x81A4 (Blob_Decode (mem_object BlobObject ZeroHash [])))
     = Inr []"
proof -
  have c: "Contents (newFile n m (Blob_Decode (mem_object BlobObject ZeroHash s))) = (s, None)"
    for n m s
    by (simp add: Contents_def newFile_def Blob_Decode_def Blob_Reader_def Reader_def
        mem_object_def)
  show ?thesis
    using Lines_splits_and_strips_last [OF c, of "''a.txt''" "0x81A4"
        "[CHR ''a'', CHR 0x0A, CHR ''b'', CHR 0x0A]"]
      Lines_splits_and_strips_last [OF c, of "''b.txt''" "0x81A4"
        "[CHR ''a'', CHR 0x0A, CHR ''b'']"]
      Lines_splits_and_strips_last [OF c, of "''c.txt''" "0x81A4" "[]"]
    by (simp add: c Split_def)
qed

section \<open>File modes: printing, parsing and classification\<close>

lemma octal_digit_char_of: "d < 8 \<Longrightarrow> octal_digit (char_of (48 + d)) = Some d"
  by (simp add: octal_digit_def Let_def)

lemma FormatOctal_nonempty: "FormatOctal n \<noteq> []"
  by (subst FormatOctal.simps) simp

lemma FormatOctal_digits: "c \<in> set (FormatOctal n) \<Longrightarrow> 48 \<le> (of_char c :: nat) \<and> (of_char c :: nat) \<le> 55"
proof (induction n rule: FormatOctal.induct)
  case (1 n)
  show ?case
  proof (cases "n < 8")
    case True
    with "1.prems" show ?thesis
      by (subst (asm) FormatOctal.simps) auto
  next
    case False
    with "1.prems" have "c \<in> set (FormatOctal (n div 8)) \<or> c = char_of (48 + n mod 8)"
      by (subst (asm) FormatOctal.simps) auto
    then show ?thesis
    proof
      assume "c \<in> set (FormatOctal (n div 8))"
      with False "1.IH" show ?thesis by simp
    next
      assume c: "c = char_of (48 + n mod 8)"
      have "n mod 8 < 8" by simp
      then have "(48 + n mod 8) mod 256 = 48 + n mod 8" by simp
      with c show ?thesis by simp
    qed
  qed
qed

lemma ParseUint_loop_FormatOctal:
  "acc * 8 ^ length (FormatOctal n) + n \<le> 2 ^ 32 - 1 \<Longrightarrow>
   ParseUint_loop (FormatOctal n @ s) acc = ParseUint_loop s (acc * 8 ^ length (FormatOctal n) + n)"
proof (induction n arbitrary: s rule: FormatOctal.induct)
  case (1 n)
  show ?case
  proof (cases "n < 8")
    case True
    then have f: "FormatOctal n = [char_of (48 + n)]"
      by (subst FormatOctal.simps) simp
    with True "1.prems" show ?thesis
      by (simp add: octal_digit_char_of)
  next
    case False
    let ?q = "n div 8" and ?d = "n mod 8"
    have f: "FormatOctal n = FormatOctal ?q @ [char_of (48 + ?d)]"
      using False by (subst FormatOctal.simps) simp
    have n: "n = ?q * 8 + ?d" by simp
    have len: "length (FormatOctal n) = Suc (length (FormatOctal ?q))"
      by (simp add: f)
    have eq: "acc * 8 ^ length (FormatOctal n) + n
            = (acc * 8 ^ length (FormatOctal ?q) + ?q) * 8 + ?d"
      by (subst n) (simp add: len algebra_simps)
    with "1.prems" have bound: "(acc * 8 ^ length (FormatOctal ?q) + ?q) * 8 + ?d \<le> 2 ^ 32 - 1"
      by simp
    then have bound': "acc * 8 ^ length (FormatOctal ?q) + ?q \<le> 2 ^ 32 - 1"
      by simp
    have "ParseUint_loop (FormatOctal n @ s) acc
        = ParseUint_loop (FormatOctal ?q @ (char_of (48 + ?d) # s)) acc"
      by (simp add: f)
    also have "\<dots> = ParseUint_loop (char_of (48 + ?d) # s) (acc * 8 ^ length (FormatOctal ?q) + ?q)"
      using "1.IH" [OF False bound'] .
    also have "\<dots> = ParseUint_loop s ((acc * 8 ^ length (FormatOctal ?q) + ?q) * 8 + ?d)"
      using bound by (simp add: octal_digit_char_of)
    finally show ?thesis
      by (simp only: eq)
  qed
qed

lemma ParseUint_FormatOctal: "n \<le> 2 ^ 32 - 1 \<Longrightarrow> ParseUint (FormatOctal n) = Inr n"
  using ParseUint_loop_FormatOctal [of 0 n "[]"] by (simp add: ParseUint_def FormatOctal_nonempty)

lemma FormatOctal_hd_digit:
  "FormatOctal n = c # cs \<Longrightarrow> c \<noteq> CHR ''+'' \<and> c \<noteq> CHR ''-''"
  using FormatOctal_digits [of c n] by auto

lemma ParseInt_FormatOctal:
  assumes "n \<le> 2 ^ 32 - 1"
  shows "ParseInt (FormatOctal n)
       = (if n < 2 ^ 31 then (int n, None) else (2 ^ 31 - 1, Some ErrRange))"
proof (cases "FormatOctal n")
  case Nil
  then show ?thesis by (simp add: FormatOctal_nonempty)
next
  case (Cons c cs)
  note sign = FormatOctal_hd_digit [OF Cons]
  from assms have "ParseUint (c # cs) = Inr n"
    using ParseUint_FormatOctal [of n] Cons by simp
  with sign Cons show ?thesis by (simp add: Let_def)
qed

lemma ParseUint_loop_error: "ParseUint_loop s n = Inl e \<Longrightarrow> e = ErrSyntax \<or> e = ErrRange"
  by (induction s arbitrary: n) (auto split: option.splits if_splits)

lemma ParseUint_error: "ParseUint s = Inl e \<Longrightarrow> e = ErrSyntax \<or> e = ErrRange"
  by (auto simp: ParseUint_def split: if_splits dest: ParseUint_loop_error)

lemma ParseInt_error: "ParseInt s = (v, Some e) \<Longrightarrow> e = ErrSyntax \<or> e = ErrRange"
  by (cases s) (auto simp: Let_def split: sum.splits if_splits dest: ParseUint_error)

lemma ParseInt_not_EOF: "not_EOF (snd (ParseInt s)) = snd (ParseInt s)"
  by (cases "ParseInt s") (auto simp: not_EOF_def split: option.splits dest: ParseInt_error)

lemma Perm_word_of_int: "Perm (word_of_int fm) = word_of_int (fm mod 512)"
proof -
  have "take_bit 9 (word_of_int fm :: 32 word) = word_of_int (take_bit 9 fm)"
    by (rule bit_eqI) (auto simp: bit_take_bit_iff bit_word_of_int_iff)
  moreover have "take_bit 9 (word_of_int fm :: 32 word) = word_of_int fm AND 0x1FF"
    by (simp add: take_bit_eq_mask mask_eq_exp_minus_1)
  moreover have "take_bit 9 fm = fm mod 512"
    by (simp add: take_bit_eq_mod)
  ultimately show ?thesis
    by (simp only: Perm_def ModePerm_def)
qed

lemma low_no_type_bits:
  assumes "0 \<le> fm" "fm < 2 ^ 19"
  shows "(word_of_int fm :: 32 word) AND ModeType = 0"
proof -
  have k: "(0x8F280000 :: 32 word) = push_bit 19 0x11E5"
    by simp
  have nobit: "\<not> bit fm n" if "19 \<le> n" for n
  proof -
    have "(2::int) ^ 19 \<le> 2 ^ n"
      using that by (rule power_increasing) simp
    with assms have "fm div 2 ^ n = 0"
      by (intro div_pos_pos_trivial) auto
    then show ?thesis
      by (simp add: bit_iff_odd)
  qed
  have hi: "19 \<le> n" if "bit (0x8F280000 :: 32 word) n" for n
    using that unfolding k bit_push_bit_iff by blast
  show ?thesis
    unfolding ModeType_def
  proof (rule bit_eqI)
    fix n
    show "bit (word_of_int fm AND 0x8F280000 :: 32 word) n = bit (0 :: 32 word) n"
    proof (cases "19 \<le> n")
      case True
      then show ?thesis
        by (simp add: bit_and_iff bit_word_of_int_iff nobit)
    next
      case False
      with hi [of n] have "\<not> bit (0x8F280000 :: 32 word) n"
        by blast
      then show ?thesis
        by (simp add: bit_and_iff)
    qed
  qed
qed

lemma decodeFileMode_FormatOctal:
  assumes "unat m < 2 ^ 31" "m \<noteq> 16384" "m \<noteq> 40960"
  shows "decodeFileMode (FormatOctal (unat m)) = (m, None)"
proof -
  have "unat m \<le> 2 ^ 32 - 1" using assms(1) by simp
  then have p: "ParseInt (FormatOctal (unat m)) = (int (unat m), None)"
    using assms(1) by (simp add: ParseInt_FormatOctal)
  have ne: "int (unat m) \<noteq> 16384" "int (unat m) \<noteq> 40960"
    using assms(2,3) by (auto simp: word_uint_eq_iff)
  show ?thesis
    using p ne by (simp add: decodeFileMode_def not_EOF_def)
qed

text \<open>
  C2 (as amended).  For every mode string handed to \<open>decodeFileMode\<close>: a string that
  \<open>strconv.ParseInt\<close> rejects is rejected with that error.  A string that parses to
  040000 yields a mode with the directory bit, one that parses to 0120000 a mode with
  the symlink bit.  Any other parsed value \<open>v\<close> is returned as it is, no type bit
  added: its permission bits are the low nine bits of \<open>v\<close> (the executable bits among
  them), and the mode is that of a plain file exactly when \<open>v\<close> has none of the type
  bits of \<open>os.FileMode\<close>, which is so for every \<open>v\<close> from 0 to \<open>2^19 - 1\<close>
  (100644, 100755 and 160000 among them).
\<close>

theorem decodeFileMode_classification:
  "case ParseInt s of
     (fm, Some e) \<Rightarrow> decodeFileMode s = (0, Some e)
   | (fm, None) \<Rightarrow>
       (fm = 16384 \<longrightarrow>
          decodeFileMode s = (0x80004000, None) \<and> IsDir (fst (decodeFileMode s)))
     \<and> (fm = 40960 \<longrightarrow>
          decodeFileMode s = (0x0800A000, None) \<and> IsSymlink (fst (decodeFileMode s)))
     \<and> (fm \<noteq> 16384 \<and> fm \<noteq> 40960 \<longrightarrow>
          decodeFileMode s = (word_of_int fm, None)
        \<and> Perm (fst (decodeFileMode s)) = word_of_int (fm mod 512)
        \<and> (IsRegular (fst (decodeFileMode s)) \<longleftrightarrow> word_of_int fm AND ModeType = (0 :: FileMode))
        \<and> (0 \<le> fm \<and> fm < 2 ^ 19 \<longrightarrow> IsRegular (fst (decodeFileMode s))))"
proof (cases "ParseInt s")
  case (Pair fm err)
  show ?thesis
  proof (cases err)
    case (Some e)
    with Pair ParseInt_error [of s fm e] show ?thesis
      by (auto simp: decodeFileMode_def not_EOF_def)
  next
    case None
    with Pair show ?thesis
      by (simp add: decodeFileMode_def not_EOF_def Perm_word_of_int IsRegular_def
          low_no_type_bits IsDir_def IsSymlink_def ModeDir_def ModeSymlink_def)
  qed
qed

theorem decodeFileMode_witness:
  "ParseInt ''100755'' = (33261, None)
   \<and> decodeFileMode ''100755'' = (33261, None)
   \<and> Perm 33261 = 493
   \<and> IsRegular 33261
   \<and> decodeFileMode ''40000'' = (0x80004000, None) \<and> IsDir 0x80004000
   \<and> decodeFileMode ''120000'' = (0x0800A000, None) \<and> IsSymlink 0x0800A000
   \<and> decodeFileMode ''12x'' = (0, Some ErrSyntax)"
proof -
  have a: "ParseInt ''100755'' = (33261, None)"
    by (simp add: ParseUint_def octal_digit_def Let_def)
  have b: "ParseInt ''40000'' = (16384, None)"
    by (simp add: ParseUint_def octal_digit_def Let_def)
  have c: "ParseInt ''120000'' = (40960, None)"
    by (simp add: ParseUint_def octal_digit_def Let_def)
  have d: "ParseInt ''12x'' = (0, Some ErrSyntax)"
    by (simp add: ParseUint_def octal_digit_def Let_def)
  have 1: "decodeFileMode ''100755'' = (33261, None) \<and> Perm 33261 = 493 \<and> IsRegular 33261"
    using decodeFileMode_classification [of "''100755''"] unfolding a by auto
  have 2: "decodeFileMode ''40000'' = (0x80004000, None) \<and> IsDir 0x80004000"
    using decodeFileMode_classification [of "''40000''"] unfolding b by auto
  have 3: "decodeFileMode ''120000'' = (0x0800A000, None) \<and> IsSymlink 0x0800A000"
    using decodeFileMode_classification [of "''120000''"] unfolding c by auto
  have 4: "decodeFileMode ''12x'' = (0, Some ErrSyntax)"
    using decodeFileMode_classification [of "''12x''"] unfolding d by auto
  from a 1 2 3 4 show ?thesis
    by simp
qed

text \<open>
  The claim as first stated fails at the mode string \<open>1000120000\<close>, which is what
  \<open>Tree.Encode\<close> prints for a symlink entry: the parsed value is neither 040000 nor
  0120000, and the mode returned is a symlink's, not a plain file's.
\<close>

theorem decodeFileMode_other_value_not_plain:
  "ParseInt ''1000120000'' = (134258688, None)
   \<and> decodeFileMode ''1000120000'' = (134258688, None)
   \<and> IsSymlink 134258688
   \<and> \<not> IsRegular 134258688"
  by (simp add: decodeFileMode_def not_EOF_def ParseUint_def octal_digit_def Let_def
      IsSymlink_def IsRegular_def ModeSymlink_def ModeType_def)

section \<open>The entry index\<close>

lemma last_named_Nil: "last_named [] n = None"
  by (simp add: last_named_def)

lemma last_named_Cons:
  "last_named (e # es) n =
     (case last_named es n of
        None \<Rightarrow> if TreeEntry.Name e = n then Some e else None
      | Some e' \<Rightarrow> Some e')"
  by (auto simp: last_named_def split: list.splits)

lemma buildMap_loop_lookup:
  "buildMap_loop es mp n = (case last_named es n of None \<Rightarrow> mp n | Some e \<Rightarrow> Some e)"
  by (induction es arbitrary: mp) (auto simp: last_named_Cons last_named_Nil split: option.splits)

lemma buildMap_loop_empty: "buildMap_loop es Map.empty n = last_named es n"
  by (simp add: buildMap_loop_lookup split: option.splits)

lemma entry_unbuilt:
  "tree_m t = None \<Longrightarrow>
   entry t n = (case last_named (Entries t) n of
                  None \<Rightarrow> Inl errEntryNotFound
                | Some e \<Rightarrow> Inr e, buildMap t)"
  by (simp add: entry_def buildMap_def buildMap_loop_empty split: option.splits)

lemma entry_built:
  "tree_m t = Some mp \<Longrightarrow>
   entry t n = (case mp n of None \<Rightarrow> Inl errEntryNotFound | Some e \<Rightarrow> Inr e, t)"
  by (simp add: entry_def split: option.splits)

lemma entry_Entries: "Entries (snd (entry t n)) = Entries t"
  by (cases "tree_m t") (simp_all add: entry_unbuilt entry_built buildMap_def)

lemma entry_index_ok:
  assumes "index_ok t"
  shows "entry t n = (case last_named (Entries t) n of
                        None \<Rightarrow> Inl errEntryNotFound
                      | Some e \<Rightarrow> Inr e,
                      if tree_m t = None then buildMap t else t)"
proof (cases "tree_m t")
  case None
  then show ?thesis by (simp add: entry_unbuilt)
next
  case (Some mp)
  with assms have "mp = buildMap_loop (Entries t) Map.empty"
    by (simp add: index_ok_def)
  with Some show ?thesis
    by (simp add: entry_built buildMap_loop_empty)
qed

lemma index_ok_buildMap: "index_ok (buildMap t)"
  by (simp add: index_ok_def buildMap_def)

lemma index_ok_new_Tree: "index_ok (new_Tree r)"
  by (simp add: index_ok_def new_Tree_def)

lemma index_ok_Decode: "index_ok t \<Longrightarrow> index_ok (snd (Decode t o'))"
  by (auto simp: Decode_def index_ok_def Let_def split: sum.splits prod.splits option.splits)

lemma lookups_index_ok:
  assumes "index_ok t"
  shows "lookups t ns =
           (map (\<lambda>n. case last_named (Entries t) n of
                        None \<Rightarrow> Inl errEntryNotFound
                      | Some e \<Rightarrow> Inr e) ns,
            if ns = [] \<or> tree_m t \<noteq> None then t else buildMap t)"
  using assms
proof (induction ns arbitrary: t)
  case Nil
  show ?case by simp
next
  case (Cons n ns)
  let ?t' = "if tree_m t = None then buildMap t else t"
  have ok: "index_ok ?t'"
    using Cons.prems by (simp add: index_ok_buildMap)
  have es: "Entries ?t' = Entries t"
    by (simp add: buildMap_def)
  have m: "tree_m ?t' \<noteq> None"
    by (simp add: buildMap_def)
  show ?case
    using Cons.IH [OF ok] m
    by (simp add: entry_index_ok [OF Cons.prems] es del: if_split cong: if_cong)
qed

text \<open>
  C7.  For every tree: a lookup on a tree without an index builds it from the current
  entry list and leaves it in the tree; a lookup on a tree that has an index consults
  that map and leaves the tree as it is, so that in a series of lookups the index is
  built by the first one at most and reused by all the others.  The index maps a name
  to the last entry of the list with that name, so a later duplicate shadows an earlier
  one.  Neither building nor consulting the index changes the entry list.  An index
  that is present and was built from the current list stays so under \<open>entry\<close> and
  \<open>Decode\<close>, the two functions that write the field.
\<close>

theorem entry_index_built_once_last_wins:
  "(tree_m t = None \<longrightarrow>
      entry t n = (case last_named (Entries t) n of
                     None \<Rightarrow> Inl errEntryNotFound
                   | Some e \<Rightarrow> Inr e,
                   t\<lparr>tree_m := Some (buildMap_loop (Entries t) Map.empty)\<rparr>))
   \<and> (\<forall>mp. tree_m t = Some mp \<longrightarrow>
      entry t n = (case mp n of None \<Rightarrow> Inl errEntryNotFound | Some e \<Rightarrow> Inr e, t))
   \<and> buildMap_loop (Entries t) Map.empty n = last_named (Entries t) n
   \<and> Entries (snd (entry t n)) = Entries t
   \<and> Entries (buildMap t) = Entries t
   \<and> (index_ok t \<longrightarrow>
        index_ok (snd (entry t n))
      \<and> index_ok (snd (Decode t o'))
      \<and> lookups t ns =
           (map (\<lambda>n. case last_named (Entries t) n of
                        None \<Rightarrow> Inl errEntryNotFound
                      | Some e \<Rightarrow> Inr e) ns,
            if ns = [] \<or> tree_m t \<noteq> None then t else buildMap t))"
proof (intro conjI impI allI)
  assume "tree_m t = None"
  then show "entry t n = (case last_named (Entries t) n of
                            None \<Rightarrow> Inl errEntryNotFound
                          | Some e \<Rightarrow> Inr e,
                          t\<lparr>tree_m := Some (buildMap_loop (Entries t) Map.empty)\<rparr>)"
    by (simp add: entry_unbuilt buildMap_def)
next
  fix mp
  assume "tree_m t = Some mp"
  then show "entry t n = (case mp n of None \<Rightarrow> Inl errEntryNotFound | Some e \<Rightarrow> Inr e, t)"
    by (rule entry_built)
next
  show "buildMap_loop (Entries t) Map.empty n = last_named (Entries t) n"
    by (rule buildMap_loop_empty)
next
  show "Entries (snd (entry t n)) = Entries t"
    by (rule entry_Entries)
next
  show "Entries (buildMap t) = Entries t"
    by (simp add: buildMap_def)
next
  assume ok: "index_ok t"
  then show "index_ok (snd (entry t n))"
    by (simp add: entry_index_ok index_ok_buildMap)
  from ok show "index_ok (snd (Decode t o'))"
    by (rule index_ok_Decode)
  from ok show "lookups t ns =
           (map (\<lambda>n. case last_named (Entries t) n of
                        None \<Rightarrow> Inl errEntryNotFound
                      | Some e \<Rightarrow> Inr e) ns,
            if ns = [] \<or> tree_m t \<noteq> None then t else buildMap t)"
    by (rule lookups_index_ok)
qed

theorem entry_index_witness:
  "tree_m dup_tree = None
   \<and> index_ok dup_tree
   \<and> entry dup_tree ''a'' = (Inr dup_last, buildMap dup_tree)
   \<and> entry (buildMap dup_tree) ''b'' = (Inr dup_other, buildMap dup_tree)
   \<and> lookups dup_tree [''a'', ''c'', ''b'', ''a'']
       = ([Inr dup_last, Inl errEntryNotFound, Inr dup_other, Inr dup_last], buildMap dup_tree)
   \<and> Entries (buildMap dup_tree) = [dup_first, dup_other, dup_last]"
proof -
  have m: "tree_m dup_tree = None"
    by (simp add: dup_tree_def new_Tree_def)
  then have ok: "index_ok dup_tree"
    by (simp add: index_ok_def)
  have es: "Entries dup_tree = [dup_first, dup_other, dup_last]"
    by (simp add: dup_tree_def)
  have names: "TreeEntry.Name dup_first = ''a''" "TreeEntry.Name dup_other = ''b''"
    "TreeEntry.Name dup_last = ''a''"
    by (simp_all add: dup_first_def dup_other_def dup_last_def)
  note built_once = entry_index_built_once_last_wins
      [where t = dup_tree and n = "''a''" and ns = "[''a'', ''c'', ''b'', ''a'']"]
  from built_once m have e: "entry dup_tree ''a'' = (Inr dup_last, buildMap dup_tree)"
    by (simp add: es names last_named_def buildMap_def)
  have "tree_m (buildMap dup_tree) = Some (buildMap_loop (Entries dup_tree) Map.empty)"
    by (simp add: buildMap_def)
  with entry_index_built_once_last_wins [where t = "buildMap dup_tree" and n = "''b''"]
  have r: "entry (buildMap dup_tree) ''b'' = (Inr dup_other, buildMap dup_tree)"
    by (simp add: es names)
  from built_once ok m
  have l: "lookups dup_tree [''a'', ''c'', ''b'', ''a'']
       = ([Inr dup_last, Inl errEntryNotFound, Inr dup_other, Inr dup_last], buildMap dup_tree)"
    by (simp add: es names last_named_def del: lookups.simps)
  from built_once have b: "Entries (buildMap dup_tree) = [dup_first, dup_other, dup_last]"
    by (simp add: es)
  from m ok e r l b show ?thesis
    by simp
qed

section \<open>Decode and Encode\<close>

lemma ReadString_delim:
  "delim \<notin> set s \<Longrightarrow> ReadString delim (s @ delim # rest) = ((s @ [delim], None), rest)"
  by (induction s) auto

lemma ReadString_no_delim:
  "delim \<notin> set s \<Longrightarrow> ReadString delim s = ((s, Some io_EOF), [])"
  by (induction s) auto

lemma ReadFull_exact:
  "length h = n \<Longrightarrow> ReadFull n (h @ rest) = ((h, None), rest)"
  by (simp add: ReadFull_def)

lemma FormatOctal_no_space: "CHR '' '' \<notin> set (FormatOctal n)"
  using FormatOctal_digits [of "CHR '' ''" n] by auto

lemma Decode_step_Nil: "Decode_step [] = Break"
  by (simp add: Decode_step_def)

lemma Decode_loop_Nil: "Decode_loop [] es = (None, es)"
  by (subst Decode_loop.simps) (simp add: Decode_step_Nil)

lemma Decode_step_record:
  assumes "CHR '' '' \<notin> set ms" and "decodeFileMode ms = (fm, None)"
    and "CHR 0x00 \<notin> set name" and "length h = HashSize"
  shows "Decode_step (ms @ '' '' @ name @ [CHR 0x00] @ h @ rest)
       = Append \<lparr>TreeEntry.Name = name, TreeEntry.Mode = fm, TreeEntry.Hash = h\<rparr> rest"
proof -
  have 1: "ReadString (CHR '' '') (ms @ '' '' @ name @ [CHR 0x00] @ h @ rest)
         = ((ms @ '' '', None), name @ [CHR 0x00] @ h @ rest)"
    using ReadString_delim [OF assms(1)] by simp
  show ?thesis
    unfolding Decode_step_def 1
    by (simp add: assms(2) not_EOF_def ReadString_delim [OF assms(3)]
        ReadFull_exact [OF assms(4)])
qed

lemma Decode_step_bad_mode:
  assumes "CHR '' '' \<notin> set ms" and "decodeFileMode ms = (fm, Some e)" and "e \<noteq> io_EOF"
  shows "Decode_step (ms @ '' '' @ rest) = Fail e"
proof -
  have 1: "ReadString (CHR '' '') (ms @ '' '' @ rest) = ((ms @ '' '', None), rest)"
    using ReadString_delim [OF assms(1)] by simp
  show ?thesis
    unfolding Decode_step_def 1
    by (simp add: assms(2,3) not_EOF_def)
qed

lemma Decode_step_wire_record:
  assumes "wire_entry e" and "stable_mode (TreeEntry.Mode e)"
  shows "Decode_step (wire_record e @ rest) = Append e rest"
proof -
  from assms(2) have "decodeFileMode (FormatOctal (unat (TreeEntry.Mode e))) = (TreeEntry.Mode e, None)"
    by (simp add: stable_mode_def decodeFileMode_FormatOctal)
  from Decode_step_record [OF FormatOctal_no_space this, of "TreeEntry.Name e" "TreeEntry.Hash e" rest]
    assms(1)
  show ?thesis
    by (simp add: wire_entry_def wire_record_def)
qed

lemma Decode_loop_wire_records:
  assumes "\<forall>e \<in> set es. wire_entry e \<and> stable_mode (TreeEntry.Mode e)"
  shows "Decode_loop (concat (map wire_record es) @ rest) acc = Decode_loop rest (acc @ es)"
  using assms
proof (induction es arbitrary: acc)
  case Nil
  show ?case by simp
next
  case (Cons e es)
  then have e: "wire_entry e" "stable_mode (TreeEntry.Mode e)"
    by simp_all
  have "Decode_loop (concat (map wire_record (e # es)) @ rest) acc
      = Decode_loop (wire_record e @ (concat (map wire_record es) @ rest)) acc"
    by simp
  also have "\<dots> = Decode_loop (concat (map wire_record es) @ rest) (acc @ [e])"
    by (subst Decode_loop.simps) (simp add: Decode_step_wire_record [OF e])
  also have "\<dots> = Decode_loop rest ((acc @ [e]) @ es)"
    using Cons.prems by (intro Cons.IH) simp
  finally show ?case by simp
qed

lemma Encode_loop_wire_records:
  "Encode_loop es (w, n)
     = (w @ concat (map wire_record es), n + length (concat (map wire_record es)))"
  by (induction es arbitrary: w n) (simp_all add: wire_record_def Let_def)

lemma wire_record_nonempty: "wire_record e \<noteq> []"
  by (simp add: wire_record_def)

lemma Encode_result:
  "owriter_err o' = None \<Longrightarrow>
   Encode t o' =
     (None, o'\<lparr>otype := TreeObject,
               ocontent := ocontent o' @ concat (map wire_record (Entries t)),
               osize := int (length (concat (map wire_record (Entries t))))\<rparr>)"
  by (simp add: Encode_def Encode_loop_wire_records Let_def)

lemma Decode_wire_records:
  assumes "\<forall>e \<in> set es. wire_entry e \<and> stable_mode (TreeEntry.Mode e)"
    and "otype o' = TreeObject" and "oreader_err o' = None"
    and "ocontent o' = concat (map wire_record es)"
    and "osize o' = int (length (ocontent o'))"
  shows "Decode (new_Tree r) o' = (None, (new_Tree r)\<lparr>Entries := es, Tree.Hash := ohash o'\<rparr>)"
proof (cases es)
  case Nil
  with assms show ?thesis
    by (simp add: Decode_def new_Tree_def)
next
  case (Cons e es')
  have "length (ocontent o') = length (wire_record e) + length (concat (map wire_record es'))"
    using Cons assms(4) by simp
  moreover have "0 < length (wire_record e)"
    using wire_record_nonempty [of e] by simp
  ultimately have "osize o' \<noteq> 0"
    using assms(5) by linarith
  moreover have "Decode_loop (ocontent o') [] = (None, es)"
    using Decode_loop_wire_records [OF assms(1), of "[]" "[]"] assms(4)
    by (simp add: Decode_loop_Nil)
  ultimately show ?thesis
    using assms(2,3) by (simp add: Decode_def Reader_def new_Tree_def Let_def)
qed

lemma Decode_loop_single:
  assumes "CHR '' '' \<notin> set ms" and "decodeFileMode ms = (fm, None)"
    and "CHR 0x00 \<notin> set name" and "length h = HashSize"
  shows "Decode_loop (ms @ '' '' @ name @ [CHR 0x00] @ h) es
       = (None, es @ [\<lparr>TreeEntry.Name = name, TreeEntry.Mode = fm, TreeEntry.Hash = h\<rparr>])"
  using Decode_step_record [OF assms, of "[]"]
  by (subst Decode_loop.simps) (simp add: Decode_loop_Nil)

lemma Decode_loop_bad_mode:
  assumes "CHR '' '' \<notin> set ms" and "decodeFileMode ms = (fm, Some e)" and "e \<noteq> io_EOF"
  shows "Decode_loop (ms @ '' '' @ rest) es = (Some e, es)"
  using Decode_step_bad_mode [OF assms, of rest]
  by (subst Decode_loop.simps) simp

lemma FormatOctal_dir: "FormatOctal 2147500032 = ''20000040000''"
  by (simp add: FormatOctal.simps char_of_def bit_Suc_0_iff)

lemma FormatOctal_file: "FormatOctal 33188 = ''100644''"
  by (simp add: FormatOctal.simps char_of_def bit_Suc_0_iff)

lemma decodeFileMode_examples:
  "decodeFileMode ''40000'' = (0x80004000, None)"
  "decodeFileMode ''0100644'' = (0x81A4, None)"
  "decodeFileMode ''100644'' = (0x81A4, None)"
  "decodeFileMode ''20000040000'' = (0, Some ErrRange)"
  by (simp_all add: decodeFileMode_def not_EOF_def ParseUint_def octal_digit_def Let_def
      ModeDir_def)

lemma Decode_git_dir:
  "Decode (new_Tree r) (mem_object TreeObject h git_dir_body)
     = (None, (new_Tree r)\<lparr>Entries := [dir_entry], Tree.Hash := h\<rparr>)"
  using Decode_loop_single [of "''40000''" "0x80004000" "''d''" "replicate 20 (CHR 0x04)" "[]"]
  by (simp add: Decode_def mem_object_def Reader_def git_dir_body_def dir_entry_def
      decodeFileMode_examples HashSize_def new_Tree_def)

lemma Encode_dir_entry:
  "Encode (t\<lparr>Entries := [dir_entry]\<rparr>) new_object
     = (None, mem_object TreeObject ZeroHash encoded_dir_body)"
  by (simp add: Encode_result new_object_def mem_object_def wire_record_def dir_entry_def
      FormatOctal_dir encoded_dir_body_def)

lemma Decode_encoded_dir:
  "Decode (new_Tree r) (mem_object TreeObject h encoded_dir_body)
     = (Some ErrRange, (new_Tree r)\<lparr>Tree.Hash := h\<rparr>)"
  using Decode_loop_bad_mode [of "''20000040000''" 0 ErrRange
      "''d'' @ [CHR 0x00] @ replicate 20 (CHR 0x04)" "[]"]
  by (simp add: Decode_def mem_object_def Reader_def encoded_dir_body_def
      decodeFileMode_examples new_Tree_def)

lemma Decode_padded_file_into:
  "Decode t (mem_object TreeObject h padded_file_body)
     = (None, t\<lparr>Entries := [dup_first], Tree.Hash := h, tree_m := None\<rparr>)"
  using Decode_loop_single [of "''0100644''" "0x81A4" "''a''" "replicate 20 (CHR 0x01)" "[]"]
  by (simp add: Decode_def mem_object_def Reader_def padded_file_body_def dup_first_def
      decodeFileMode_examples HashSize_def)

lemma Decode_padded_file:
  "Decode (new_Tree r) (mem_object TreeObject h padded_file_body)
     = (None, (new_Tree r)\<lparr>Entries := [dup_first], Tree.Hash := h\<rparr>)"
  by (simp add: Decode_padded_file_into) (simp add: new_Tree_def)

lemma Encode_padded_file:
  "ocontent (snd (Encode (t\<lparr>Entries := [dup_first]\<rparr>) new_object))
     = ''100644 a'' @ [CHR 0x00] @ replicate 20 (CHR 0x01)"
  by (simp add: Encode_result new_object_def mem_object_def wire_record_def dup_first_def
      FormatOctal_file)

text \<open>
  C1 (as amended).  For every tree whose entries fit the wire format (a name without a
  NUL byte, a hash of \<open>HashSize\<close> bytes) and have a mode that \<open>decodeFileMode\<close>
  reads back unchanged from its octal text, \<open>Encode\<close> into an empty writable object
  succeeds and writes the records of the entries in list order; decoding what was
  written into a new tree succeeds and yields exactly the entry list of the original,
  in order and field by field; and encoding the decoded tree writes the same bytes
  again.
\<close>

theorem Decode_Encode_round_trip:
  assumes "\<forall>e \<in> set (Entries t). wire_entry e \<and> stable_mode (TreeEntry.Mode e)"
    and "owriter_err o' = None" and "oreader_err o' = None" and "ocontent o' = []"
  shows "fst (Encode t o') = None
       \<and> ocontent (snd (Encode t o')) = concat (map wire_record (Entries t))
       \<and> Decode (new_Tree r) (snd (Encode t o'))
           = (None, (new_Tree r)\<lparr>Entries := Entries t, Tree.Hash := ohash o'\<rparr>)
       \<and> Encode (snd (Decode (new_Tree r) (snd (Encode t o')))) o' = Encode t o'"
proof -
  let ?o = "snd (Encode t o')"
  have enc: "fst (Encode t o') = None" and
    o: "otype ?o = TreeObject" "oreader_err ?o = None" "ohash ?o = ohash o'"
       "ocontent ?o = concat (map wire_record (Entries t))"
       "osize ?o = int (length (ocontent ?o))"
    using assms(2,3,4) by (simp_all add: Encode_result)
  have dec: "Decode (new_Tree r) ?o = (None, (new_Tree r)\<lparr>Entries := Entries t, Tree.Hash := ohash o'\<rparr>)"
    using Decode_wire_records [OF assms(1) o(1,2,4,5), of r] o(3) by simp
  have "Entries (snd (Decode (new_Tree r) ?o)) = Entries t"
    by (simp only: dec snd_conv) simp
  then have "Encode (snd (Decode (new_Tree r) ?o)) o' = Encode t o'"
    using assms(2) by (simp only: Encode_result)
  with enc o(4) dec show ?thesis
    by simp
qed

theorem Decode_Encode_round_trip_witness:
  "wire_entry dup_first \<and> stable_mode (TreeEntry.Mode dup_first)
   \<and> wire_entry dup_other \<and> stable_mode (TreeEntry.Mode dup_other)
   \<and> wire_entry dup_last \<and> stable_mode (TreeEntry.Mode dup_last)
   \<and> Entries dup_tree = [dup_first, dup_other, dup_last]
   \<and> fst (Encode dup_tree new_object) = None
   \<and> Decode (new_Tree empty_repo) (snd (Encode dup_tree new_object))
       = (None, (new_Tree empty_repo)\<lparr>Entries := [dup_first, dup_other, dup_last],
                                         Tree.Hash := ZeroHash\<rparr>)
   \<and> Encode (snd (Decode (new_Tree empty_repo) (snd (Encode dup_tree new_object)))) new_object
       = Encode dup_tree new_object"
proof -
  have e: "wire_entry dup_first" "stable_mode (TreeEntry.Mode dup_first)"
    "wire_entry dup_other" "stable_mode (TreeEntry.Mode dup_other)"
    "wire_entry dup_last" "stable_mode (TreeEntry.Mode dup_last)"
    by (simp_all add: wire_entry_def stable_mode_def HashSize_def dup_first_def dup_other_def
        dup_last_def)
  have es: "Entries dup_tree = [dup_first, dup_other, dup_last]"
    by (simp add: dup_tree_def)
  have h: "\<forall>e \<in> set (Entries dup_tree). wire_entry e \<and> stable_mode (TreeEntry.Mode e)"
    using e by (simp add: es)
  have o: "owriter_err new_object = None" "oreader_err new_object = None"
    "ocontent new_object = []" "ohash new_object = ZeroHash"
    by (simp_all add: new_object_def mem_object_def)
  from Decode_Encode_round_trip [OF h o(1,2,3), of empty_repo] e es o(4)
  show ?thesis
    by auto
qed

text \<open>
  The claim as first stated fails in two ways.  \<open>Decode\<close> accepts a record whose
  mode is written with a zero in front, and \<open>Encode\<close> writes the tree it yields
  without that zero: a mode is kept as a number, not as its text.  And for a directory
  as git writes it, \<open>Decode\<close> yields the mode 040000 with \<open>ModeDir\<close>, which
  \<open>Encode\<close> prints whole, as \<open>20000040000\<close>: not the body that was decoded, and
  a body that \<open>Decode\<close> rejects with the range error of \<open>strconv.ParseInt\<close>.
\<close>

theorem Encode_does_not_invert_Decode:
  "Decode (new_Tree empty_repo) (mem_object TreeObject ZeroHash padded_file_body)
     = (None, (new_Tree empty_repo)\<lparr>Entries := [dup_first], Tree.Hash := ZeroHash\<rparr>)
   \<and> ocontent (snd (Encode ((new_Tree empty_repo)\<lparr>Entries := [dup_first], Tree.Hash := ZeroHash\<rparr>)
         new_object)) \<noteq> padded_file_body
   \<and> Decode (new_Tree empty_repo) (mem_object TreeObject ZeroHash git_dir_body)
     = (None, (new_Tree empty_repo)\<lparr>Entries := [dir_entry], Tree.Hash := ZeroHash\<rparr>)
   \<and> Encode ((new_Tree empty_repo)\<lparr>Entries := [dir_entry], Tree.Hash := ZeroHash\<rparr>) new_object
     = (None, mem_object TreeObject ZeroHash encoded_dir_body)
   \<and> encoded_dir_body \<noteq> git_dir_body
   \<and> Decode (new_Tree empty_repo) (mem_object TreeObject ZeroHash encoded_dir_body)
     = (Some ErrRange, (new_Tree empty_repo)\<lparr>Tree.Hash := ZeroHash\<rparr>)"
proof -
  have 1: "((new_Tree empty_repo)\<lparr>Entries := [e], Tree.Hash := ZeroHash\<rparr>)
         = ((new_Tree empty_repo)\<lparr>Tree.Hash := ZeroHash\<rparr>)\<lparr>Entries := [e]\<rparr>" for e
    by simp
  show ?thesis
    unfolding 1 Encode_padded_file Encode_dir_entry Decode_padded_file Decode_git_dir Decode_encoded_dir
    by (simp add: padded_file_body_def encoded_dir_body_def git_dir_body_def)
qed

section \<open>Decode on an object of another kind, and on an empty body\<close>

lemma Decode_unsupported:
  "otype o' \<noteq> TreeObject \<Longrightarrow> Decode t o' = (Some ErrUnsupportedObject, t)"
  by (simp add: Decode_def)

lemma Decode_zero_size:
  "otype o' = TreeObject \<Longrightarrow> osize o' = 0 \<Longrightarrow> Decode t o' = (None, t\<lparr>Tree.Hash := ohash o'\<rparr>)"
  by (simp add: Decode_def)

lemma Decode_zero_size_new_Tree:
  "otype o' = TreeObject \<Longrightarrow> osize o' = 0 \<Longrightarrow>
   Entries (snd (Decode (new_Tree r) o')) = [] \<and> fst (Decode (new_Tree r) o') = None"
  by (simp add: Decode_zero_size new_Tree_def)

text \<open>
  C8.  Decoding an object that is not a tree fails with \<open>ErrUnsupportedObject\<close> and
  leaves the receiver as it was, whatever the body holds (\<open>Decode_unsupported\<close>).
  Decoding a tree object of size zero succeeds, but returns before the receiver's
  entries and index are reset: a new tree stays empty, while a tree that has decoded a
  directory keeps that entry under the hash of the empty object.  A body of one record,
  decoded into the same receiver, does replace the entries.
\<close>

theorem Decode_empty_body_keeps_old_entries:
  "Decode (new_Tree empty_repo) (mem_object TreeObject (replicate 20 (CHR 0x05)) git_dir_body)
     = (None, (new_Tree empty_repo)\<lparr>Entries := [dir_entry],
                                       Tree.Hash := replicate 20 (CHR 0x05)\<rparr>)
   \<and> Decode ((new_Tree empty_repo)\<lparr>Entries := [dir_entry],
                                      Tree.Hash := replicate 20 (CHR 0x05)\<rparr>)
        (mem_object TreeObject (replicate 20 (CHR 0x06)) [])
     = (None, (new_Tree empty_repo)\<lparr>Entries := [dir_entry],
                                       Tree.Hash := replicate 20 (CHR 0x06)\<rparr>)
   \<and> Decode ((new_Tree empty_repo)\<lparr>Entries := [dir_entry],
                                      Tree.Hash := replicate 20 (CHR 0x05)\<rparr>)
        (mem_object TreeObject (replicate 20 (CHR 0x07)) padded_file_body)
     = (None, (new_Tree empty_repo)\<lparr>Entries := [dup_first],
                                       Tree.Hash := replicate 20 (CHR 0x07)\<rparr>)
   \<and> Decode (new_Tree empty_repo) (mem_object TreeObject (replicate 20 (CHR 0x06)) [])
     = (None, (new_Tree empty_repo)\<lparr>Tree.Hash := replicate 20 (CHR 0x06)\<rparr>)"
  by (simp add: Decode_git_dir Decode_padded_file_into)
     (simp add: Decode_zero_size mem_object_def new_Tree_def)

section \<open>The repository of nested directories\<close>

lemma length_hash_of: "length (hash_of i) = HashSize"
  by (simp add: hash_of_def HashSize_def)

lemma hash_of_Cons:
  "hash_of i = char_of (i mod 256) # char_of (i div 256) # replicate 18 (CHR 0x00)"
  by (simp add: hash_of_def)

lemma level_hash_of:
  assumes "i < 65536"
  shows "level (hash_of i) = i"
proof -
  have "level (hash_of i) = i mod 256 mod 256 + 256 * (i div 256 mod 256)"
    unfolding hash_of_Cons level_def by (simp only: list.case of_char_of)
  moreover from assms have "i div 256 < 256"
    by simp
  then have "i div 256 mod 256 = i div 256"
    by (rule mod_less)
  moreover have "i mod 256 + 256 * (i div 256) = i"
    by (rule mod_mult_div_eq)
  ultimately show ?thesis
    by (simp only: mod_mod_trivial)
qed

lemma hash_of_inj: "i < 65536 \<Longrightarrow> j < 65536 \<Longrightarrow> hash_of i = hash_of j \<Longrightarrow> i = j"
  by (metis level_hash_of)

lemma chain_repo_tree:
  assumes "0 < i" "i \<le> n" "i < 65536"
  shows "chain_repo n (hash_of i) = Inr (mem_object TreeObject (hash_of i) (chain_body n i))"
  unfolding chain_repo_def level_hash_of [OF assms(3)] Let_def
  using assms(1,2) by simp

lemma chain_repo_blob:
  "chain_repo n (hash_of 0) = Inr (mem_object BlobObject (hash_of 0) ''hello'')"
proof -
  have "level (hash_of 0) = 0"
    by (rule level_hash_of) simp
  then show ?thesis
    unfolding chain_repo_def Let_def by simp
qed

lemma Decode_loop_chain_dir:
  "Decode_loop (''40000 d'' @ [CHR 0x00] @ hash_of j) []
     = (None, [\<lparr>TreeEntry.Name = ''d'', TreeEntry.Mode = 0x80004000, TreeEntry.Hash = hash_of j\<rparr>])"
proof -
  have "Decode_loop (''40000'' @ '' '' @ ''d'' @ [CHR 0x00] @ hash_of j) []
     = (None, [] @ [\<lparr>TreeEntry.Name = ''d'', TreeEntry.Mode = 0x80004000, TreeEntry.Hash = hash_of j\<rparr>])"
    by (rule Decode_loop_single) (simp_all add: decodeFileMode_examples length_hash_of)
  then show ?thesis
    by simp
qed

lemma Decode_loop_chain_file:
  "Decode_loop (''100644 f'' @ [CHR 0x00] @ hash_of j) []
     = (None, [\<lparr>TreeEntry.Name = ''f'', TreeEntry.Mode = 0x81A4, TreeEntry.Hash = hash_of j\<rparr>])"
proof -
  have "Decode_loop (''100644'' @ '' '' @ ''f'' @ [CHR 0x00] @ hash_of j) []
     = (None, [] @ [\<lparr>TreeEntry.Name = ''f'', TreeEntry.Mode = 0x81A4, TreeEntry.Hash = hash_of j\<rparr>])"
    by (rule Decode_loop_single) (simp_all add: decodeFileMode_examples length_hash_of)
  then show ?thesis
    by simp
qed

lemma Decode_loop_chain_body: "Decode_loop (chain_body n i) [] = (None, [chain_entry n i])"
  by (simp add: chain_body_def chain_entry_def Decode_loop_chain_dir Decode_loop_chain_file
      del: append.simps)

lemma chain_body_nonempty: "chain_body n i \<noteq> []"
  by (simp add: chain_body_def)

lemma Decode_chain_body:
  "Decode (new_Tree (chain_repo n)) (mem_object TreeObject (hash_of i) (chain_body n i))
     = (None, chain_tree n i)"
  by (simp add: Decode_def mem_object_def Reader_def Decode_loop_chain_body chain_body_nonempty
      chain_tree_def new_Tree_def Let_def)

section \<open>Path resolution\<close>

lemma entry_tree_r: "tree_r (snd (entry t n)) = tree_r t"
  by (simp add: entry_def buildMap_def Let_def split: option.splits)

lemma entry_any_repository: "fst (entry (t\<lparr>tree_r := r'\<rparr>) n) = fst (entry t n)"
  by (simp add: entry_def buildMap_def Let_def split: option.splits)

lemma dir_root: "snd (dir t n) = snd (entry t n)"
  by (simp add: dir_def split: prod.splits sum.splits)

lemma dir_result:
  "fst (dir t n) =
     (case fst (entry t n) of
        Inl err \<Rightarrow> Inl errDirNotFound
      | Inr e \<Rightarrow>
          (case tree_r t (TreeEntry.Hash e) of
             Inl err \<Rightarrow> Inl (if err = ErrObjectNotFound then errDirNotFound else err)
           | Inr obj \<Rightarrow>
               if otype obj = TreeObject then Inr (snd (Decode (new_Tree (tree_r t)) obj))
               else Inl errDirNotFound))"
proof (cases "entry t n")
  case (Pair res t')
  then have "tree_r t' = tree_r t"
    using entry_tree_r [of t n] by simp
  with Pair show ?thesis
    by (simp add: dir_def split: sum.splits)
qed

lemma findEntry_loop_result:
  "parts \<noteq> [] \<Longrightarrow>
   fst (findEntry_loop t parts) =
     (case descend t (butlast parts) of
        Inl err \<Rightarrow> Inl err
      | Inr tree \<Rightarrow> fst (entry tree (last parts)))"
proof (induction t parts rule: findEntry_loop.induct)
  case (1 tree)
  then show ?case by simp
next
  case (2 tree p)
  show ?case by simp
next
  case (3 tree p q ps)
  show ?case
  proof (cases "dir tree p")
    case (Pair res tree')
    show ?thesis
    proof (cases res)
      case (Inl err)
      with Pair show ?thesis by simp
    next
      case (Inr sub)
      with Pair "3.IH" [of res tree' sub] show ?thesis by (simp split: sum.splits)
    qed
  qed
qed

lemma findEntry_loop_root:
  "parts \<noteq> [] \<Longrightarrow> snd (findEntry_loop t parts) = snd (entry t (hd parts))"
  by (cases "(t, parts)" rule: findEntry_loop.cases)
     (auto simp: dir_root [symmetric] split: prod.splits sum.splits)

lemma findEntry_tree_r: "tree_r (snd (findEntry t path)) = tree_r t"
  by (simp add: findEntry_def findEntry_loop_root Split_nonempty entry_tree_r)

lemma entry_chain_tree:
  "fst (entry (chain_tree n i) name)
     = (if name = TreeEntry.Name (chain_entry n i) then Inr (chain_entry n i)
        else Inl errEntryNotFound)"
  by (simp add: entry_unbuilt chain_tree_def new_Tree_def last_named_def)

lemma dir_chain_tree:
  assumes "0 < i" "i < n" "n < 65536"
  shows "fst (dir (chain_tree n i) ''d'') = Inr (chain_tree n (Suc i))"
proof -
  have e: "fst (entry (chain_tree n i) ''d'') = Inr (chain_entry n i)"
    using assms(2) by (simp add: entry_chain_tree chain_entry_def)
  have h: "TreeEntry.Hash (chain_entry n i) = hash_of (Suc i)"
    using assms(2) by (simp add: chain_entry_def)
  have r: "tree_r (chain_tree n i) = chain_repo n"
    by (simp add: chain_tree_def new_Tree_def)
  have s: "chain_repo n (hash_of (Suc i))
         = Inr (mem_object TreeObject (hash_of (Suc i)) (chain_body n (Suc i)))"
    using assms by (intro chain_repo_tree) simp_all
  show ?thesis
    by (simp add: dir_result e h r s Decode_chain_body) (simp add: mem_object_def)
qed

lemma dir_chain_tree_file:
  "fst (dir (chain_tree n n) ''f'') = Inl errDirNotFound"
proof -
  have e: "fst (entry (chain_tree n n) ''f'') = Inr (chain_entry n n)"
    by (simp add: entry_chain_tree chain_entry_def)
  have h: "TreeEntry.Hash (chain_entry n n) = hash_of 0"
    by (simp add: chain_entry_def)
  have r: "tree_r (chain_tree n n) = chain_repo n"
    by (simp add: chain_tree_def new_Tree_def)
  show ?thesis
    by (simp add: dir_result e h r chain_repo_blob) (simp add: mem_object_def)
qed

lemma Split_examples:
  "Split ''d/f'' (CHR ''/'') = [''d'', ''f'']"
  "Split ''f/x'' (CHR ''/'') = [''f'', ''x'']"
  "Split ''a/x'' (CHR ''/'') = [''a'', ''x'']"
  "Split ''x/f'' (CHR ''/'') = [''x'', ''f'']"
  "Split ''m'' (CHR ''/'') = [''m'']"
  "Split ''d'' (CHR ''/'') = [''d'']"
  "Split ''nope.txt'' (CHR ''/'') = [''nope.txt'']"
  by (simp_all add: Split_def)

lemma chain_root_facts:
  "tree_r (chain_root n) = chain_repo n"
  "fst (entry (chain_root n) name)
     = (if name = TreeEntry.Name (chain_entry n (Suc 0)) then Inr (chain_entry n (Suc 0))
        else Inl errEntryNotFound)"
  by (simp add: chain_root_def chain_tree_def new_Tree_def)
     (simp add: chain_root_def entry_chain_tree)

lemma dir_chain_root:
  assumes "Suc 0 < n" "n < 65536"
  shows "fst (dir (chain_root n) ''d'') = Inr (chain_tree n 2)"
proof -
  from assms have "fst (dir (chain_tree n (Suc 0)) ''d'') = Inr (chain_tree n (Suc (Suc 0)))"
    by (intro dir_chain_tree) simp_all
  then show ?thesis
    by (simp only: chain_root_def numeral_2_eq_2)
qed

lemma chain_entry_2:
  "chain_entry 2 (Suc 0) = \<lparr>TreeEntry.Name = ''d'', TreeEntry.Mode = 0x80004000, TreeEntry.Hash = hash_of 2\<rparr>"
  "chain_entry 2 2 = \<lparr>TreeEntry.Name = ''f'', TreeEntry.Mode = 0x81A4, TreeEntry.Hash = hash_of 0\<rparr>"
  by (simp_all add: chain_entry_def numeral_2_eq_2)

lemma chain_repo_2:
  "chain_repo 2 (hash_of 2) = Inr (mem_object TreeObject (hash_of 2) (chain_body 2 2))"
  by (rule chain_repo_tree) simp_all

lemma findEntry_chain_file: "fst (findEntry (chain_root 2) ''d/f'') = Inr (chain_entry 2 2)"
  using dir_chain_root [of 2]
  by (simp add: findEntry_def findEntry_loop_result Split_examples entry_chain_tree chain_entry_2
      del: findEntry_loop.simps)

lemma Tree_File_chain_file:
  "fst (Tree_File (chain_root 2) ''d/f'')
     = Inr \<lparr>File.Name = ''d/f'', File.Mode = 0x81A4,
            Blob = Blob_Decode (mem_object BlobObject (hash_of 0) ''hello'')\<rparr>"
proof (cases "findEntry (chain_root 2) ''d/f''")
  case (Pair res t')
  with findEntry_chain_file findEntry_tree_r [of "chain_root 2" "''d/f''"] show ?thesis
    by (simp add: Tree_File_def newFile_def chain_entry_2 chain_root_facts chain_repo_blob
        mem_object_def)
qed

text \<open>
  C4.  For every tree and path, \<open>findEntry\<close> splits the path at the slashes,
  descends through every segment but the last and looks the last one up in the index of
  the tree it reached, returning that entry as it is: the lookup does not depend on
  what the repository stores.  Each step of the descent is \<open>dir\<close>: it looks the
  segment up in the index of the current tree and fetches the object of the entry's
  hash, and it fails with \<open>errDirNotFound\<close> when the segment has no entry, when the
  storage reports the object as not found, and when the object is not a tree;
  otherwise the step lands in the tree decoded from the object.
\<close>

theorem findEntry_descends_then_looks_up:
  "fst (findEntry t path) =
     (case descend t (butlast (Split path (CHR ''/''))) of
        Inl err \<Rightarrow> Inl err
      | Inr tree \<Rightarrow> fst (entry tree (last (Split path (CHR ''/'')))))
   \<and> (\<forall>r'. fst (entry (tree\<lparr>tree_r := r'\<rparr>) n) = fst (entry tree n))
   \<and> (\<forall>p ps. descend tree (p # ps) =
         (case fst (dir tree p) of Inl err \<Rightarrow> Inl err | Inr sub \<Rightarrow> descend sub ps))
   \<and> (\<forall>err. fst (entry tree n) = Inl err \<longrightarrow> fst (dir tree n) = Inl errDirNotFound)
   \<and> (\<forall>e. fst (entry tree n) = Inr e \<longrightarrow>
         (tree_r tree (TreeEntry.Hash e) = Inl ErrObjectNotFound \<longrightarrow>
            fst (dir tree n) = Inl errDirNotFound)
       \<and> (\<forall>obj. tree_r tree (TreeEntry.Hash e) = Inr obj \<longrightarrow>
            (otype obj \<noteq> TreeObject \<longrightarrow> fst (dir tree n) = Inl errDirNotFound)
          \<and> (otype obj = TreeObject \<longrightarrow>
               fst (dir tree n) = Inr (snd (Decode (new_Tree (tree_r tree)) obj)))))"
  by (simp add: findEntry_def findEntry_loop_result Split_nonempty entry_any_repository
      dir_result)

theorem findEntry_witness:
  "fst (findEntry (chain_root 2) ''d/f'') = Inr (chain_entry 2 2)
   \<and> fst (findEntry (chain_root 2) ''x/f'') = Inl errDirNotFound
   \<and> fst (findEntry (chain_tree 2 2) ''f/x'') = Inl errDirNotFound
   \<and> fst (findEntry dup_tree ''a/x'') = Inl errDirNotFound
   \<and> fst (findEntry (chain_root 2) ''d'') = Inr (chain_entry 2 (Suc 0))"
proof -
  note ex = Split_examples chain_entry_2 chain_root_facts entry_chain_tree
  have e: "fst (entry (chain_root 2) ''d'') = Inr (chain_entry 2 (Suc 0))"
    by (simp add: ex)
  have d1: "fst (dir (chain_root 2) ''d'') = Inr (chain_tree 2 2)"
    using findEntry_descends_then_looks_up [where tree = "chain_root 2" and n = "''d''"] e
    by (simp add: ex chain_repo_2 Decode_chain_body) (simp add: mem_object_def)
  have 1: "fst (findEntry (chain_root 2) ''d/f'') = Inr (chain_entry 2 2)"
    using findEntry_descends_then_looks_up [of "chain_root 2" "''d/f''"]
    by (simp add: ex d1)
  have x: "fst (entry (chain_root 2) ''x'') = Inl errEntryNotFound"
    by (simp add: ex)
  have dx: "fst (dir (chain_root 2) ''x'') = Inl errDirNotFound"
    using findEntry_descends_then_looks_up [where tree = "chain_root 2" and n = "''x''"] x
    by simp
  have 2: "fst (findEntry (chain_root 2) ''x/f'') = Inl errDirNotFound"
    using findEntry_descends_then_looks_up [of "chain_root 2" "''x/f''"]
    by (simp add: ex dx)
  have f: "fst (entry (chain_tree 2 2) ''f'') = Inr (chain_entry 2 2)"
    "tree_r (chain_tree 2 2) = chain_repo 2"
    by (simp add: ex) (simp add: chain_tree_def new_Tree_def)
  have df: "fst (dir (chain_tree 2 2) ''f'') = Inl errDirNotFound"
    using findEntry_descends_then_looks_up [where tree = "chain_tree 2 2" and n = "''f''"] f
    by (simp add: ex chain_repo_blob mem_object_def)
  have 3: "fst (findEntry (chain_tree 2 2) ''f/x'') = Inl errDirNotFound"
    using findEntry_descends_then_looks_up [of "chain_tree 2 2" "''f/x''"]
    by (simp add: ex df)
  have a: "fst (entry dup_tree ''a'') = Inr dup_last"
    "tree_r dup_tree (TreeEntry.Hash dup_last) = Inl ErrObjectNotFound"
    by (simp_all add: entry_unbuilt dup_tree_def new_Tree_def last_named_def dup_first_def
        dup_other_def dup_last_def empty_repo_def)
  have da: "fst (dir dup_tree ''a'') = Inl errDirNotFound"
    using findEntry_descends_then_looks_up [where tree = dup_tree and n = "''a''"] a
    by simp
  have 4: "fst (findEntry dup_tree ''a/x'') = Inl errDirNotFound"
    using findEntry_descends_then_looks_up [of dup_tree "''a/x''"]
    by (simp add: ex da)
  have 5: "fst (findEntry (chain_root 2) ''d'') = Inr (chain_entry 2 (Suc 0))"
    using findEntry_descends_then_looks_up [of "chain_root 2" "''d''"]
    by (simp add: ex)
  from 1 2 3 4 5 show ?thesis
    by simp
qed

text \<open>
  C3 (as amended).  For every tree and path, \<open>Tree.File\<close> fails with
  \<open>ErrFileNotFound\<close> when \<open>findEntry\<close> fails, when the storage reports the object
  of the leaf entry's hash as not found, and when that object is of any kind other than
  blob (a tree, but also a commit or a tag); any other error of the storage is returned
  as it is; otherwise the result is a file whose name is the path asked for, whose mode
  is the leaf entry's and whose blob is decoded from the object.
\<close>

theorem Tree_File_outcomes:
  "(\<forall>err. fst (findEntry t path) = Inl err \<longrightarrow> fst (Tree_File t path) = Inl ErrFileNotFound)
   \<and> (\<forall>e. fst (findEntry t path) = Inr e \<longrightarrow>
         (\<forall>err. tree_r t (TreeEntry.Hash e) = Inl err \<longrightarrow>
            fst (Tree_File t path)
              = Inl (if err = ErrObjectNotFound then ErrFileNotFound else err))
       \<and> (\<forall>obj. tree_r t (TreeEntry.Hash e) = Inr obj \<longrightarrow>
            (otype obj \<noteq> BlobObject \<longrightarrow> fst (Tree_File t path) = Inl ErrFileNotFound)
          \<and> (otype obj = BlobObject \<longrightarrow>
               fst (Tree_File t path)
                 = Inr \<lparr>File.Name = path, File.Mode = TreeEntry.Mode e,
                        Blob = Blob_Decode obj\<rparr>)))
   \<and> snd (Tree_File t path) = snd (findEntry t path)"
proof (cases "findEntry t path")
  case (Pair res t')
  then have "tree_r t' = tree_r t"
    using findEntry_tree_r [of t path] by simp
  with Pair show ?thesis
    by (auto simp: Tree_File_def newFile_def split: sum.splits)
qed

theorem Tree_File_witness:
  "fst (Tree_File (chain_root 2) ''d/f'')
     = Inr \<lparr>File.Name = ''d/f'', File.Mode = 0x81A4,
            Blob = Blob_Decode (mem_object BlobObject (hash_of 0) ''hello'')\<rparr>
   \<and> fst (Tree_File (chain_root 2) ''nope.txt'') = Inl ErrFileNotFound
   \<and> fst (Tree_File (chain_root 2) ''d'') = Inl ErrFileNotFound
   \<and> fst (Tree_File dup_tree ''b'') = Inl ErrFileNotFound
   \<and> fst (Tree_File failing_tree ''a'') = Inl (OtherError ''disk'')"
proof -
  note ex = Split_examples chain_entry_2 chain_root_facts entry_chain_tree
  have 1: "fst (Tree_File (chain_root 2) ''d/f'')
     = Inr \<lparr>File.Name = ''d/f'', File.Mode = 0x81A4,
            Blob = Blob_Decode (mem_object BlobObject (hash_of 0) ''hello'')\<rparr>"
    using Tree_File_outcomes [of "chain_root 2" "''d/f''"]
    by (simp add: findEntry_chain_file ex chain_repo_blob) (simp add: mem_object_def)
  have n: "fst (findEntry (chain_root 2) ''nope.txt'') = Inl errEntryNotFound"
    by (simp add: findEntry_def ex)
  have 2: "fst (Tree_File (chain_root 2) ''nope.txt'') = Inl ErrFileNotFound"
    using Tree_File_outcomes [of "chain_root 2" "''nope.txt''"] n by simp
  have d: "fst (findEntry (chain_root 2) ''d'') = Inr (chain_entry 2 (Suc 0))"
    by (simp add: findEntry_def ex)
  have 3: "fst (Tree_File (chain_root 2) ''d'') = Inl ErrFileNotFound"
    using Tree_File_outcomes [of "chain_root 2" "''d''"]
    by (simp add: d ex chain_repo_2) (simp add: mem_object_def)
  have b: "fst (findEntry dup_tree ''b'') = Inr dup_other"
    "tree_r dup_tree (TreeEntry.Hash dup_other) = Inl ErrObjectNotFound"
    by (simp_all add: findEntry_def Split_def entry_unbuilt dup_tree_def new_Tree_def
        last_named_def dup_first_def dup_other_def dup_last_def empty_repo_def)
  have 4: "fst (Tree_File dup_tree ''b'') = Inl ErrFileNotFound"
    using Tree_File_outcomes [of dup_tree "''b''"] b by simp
  have a: "fst (findEntry failing_tree ''a'') = Inr dup_first"
    "tree_r failing_tree (TreeEntry.Hash dup_first) = Inl (OtherError ''disk'')"
    by (simp_all add: findEntry_def Split_def entry_unbuilt failing_tree_def new_Tree_def
        last_named_def dup_first_def failing_repo_def)
  have 5: "fst (Tree_File failing_tree ''a'') = Inl (OtherError ''disk'')"
    using Tree_File_outcomes [of failing_tree "''a''"] a by simp
  from 1 2 3 4 5 show ?thesis
    by simp
qed

text \<open>
  The claim as first stated fails on an entry whose object is stored and is a commit:
  none of the three cases it lists holds, and \<open>Tree.File\<close> still answers
  \<open>ErrFileNotFound\<close>.  And the file found under \<open>d/f\<close> is named \<open>d/f\<close>, the
  path, while its entry is named \<open>f\<close>.
\<close>

theorem Tree_File_commit_object_not_found:
  "fst (findEntry module_tree ''m'') = Inr module_entry
   \<and> tree_r module_tree (TreeEntry.Hash module_entry)
       = Inr (mem_object CommitObject commit_hash ''tree'')
   \<and> otype (mem_object CommitObject commit_hash ''tree'') = CommitObject
   \<and> fst (Tree_File module_tree ''m'') = Inl ErrFileNotFound
   \<and> fst (findEntry (chain_root 2) ''d/f'') = Inr (chain_entry 2 2)
   \<and> TreeEntry.Name (chain_entry 2 2) = ''f''
   \<and> fst (Tree_File (chain_root 2) ''d/f'')
       = Inr \<lparr>File.Name = ''d/f'', File.Mode = 0x81A4,
              Blob = Blob_Decode (mem_object BlobObject (hash_of 0) ''hello'')\<rparr>"
proof -
  have m: "fst (findEntry module_tree ''m'') = Inr module_entry"
    by (simp add: findEntry_def Split_examples entry_unbuilt module_tree_def new_Tree_def
        last_named_def module_entry_def)
  have r: "tree_r module_tree (TreeEntry.Hash module_entry)
       = Inr (mem_object CommitObject commit_hash ''tree'')"
    by (simp add: module_tree_def new_Tree_def module_repo_def module_entry_def)
  have f: "fst (Tree_File module_tree ''m'') = Inl ErrFileNotFound"
  proof (cases "findEntry module_tree ''m''")
    case (Pair res t')
    with m findEntry_tree_r [of module_tree "''m''"] r show ?thesis
      by (simp add: Tree_File_def mem_object_def)
  qed
  from m r f findEntry_chain_file Tree_File_chain_file show ?thesis
    by (simp add: chain_entry_2 mem_object_def)
qed

section \<open>The depth guard of the walker\<close>

lemma NewTreeWalker_chain: "NewTreeWalker (chain_repo n) (chain_root n) = chain_walker n 0"
  by (simp add: NewTreeWalker_def chain_walker_def chain_root_def)

lemma length_chain_below: "length (chain_below n k) = k"
  by (induction k) simp_all

lemma resolve_chain_tree:
  assumes "0 < i" "i \<le> n" "i < 65536"
  shows "resolve (chain_repo n) (hash_of i) = Inr (TreeObj (chain_tree n i))"
  by (simp add: resolve_def chain_repo_tree [OF assms] Decode_chain_body)
     (simp add: mem_object_def)

lemma resolve_chain_blob:
  "resolve (chain_repo n) (hash_of 0)
     = Inr (BlobObj (Blob_Decode (mem_object BlobObject (hash_of 0) ''hello'')))"
  by (simp add: resolve_def chain_repo_blob) (simp add: mem_object_def)

lemma treeEntryIter_Next_chain_top:
  "treeEntryIter_Next \<lparr>iter_t = chain_tree n i, iter_pos = 0\<rparr>
     = (Inr (chain_entry n i), \<lparr>iter_t = chain_tree n i, iter_pos = Suc 0\<rparr>)"
  by (simp add: treeEntryIter_Next_def chain_tree_def)

lemma treeEntryIter_Next_chain_done:
  "treeEntryIter_Next \<lparr>iter_t = chain_tree n i, iter_pos = Suc 0\<rparr>
     = (Inl io_EOF, \<lparr>iter_t = chain_tree n i, iter_pos = Suc 0\<rparr>)"
  by (simp add: treeEntryIter_Next_def chain_tree_def)

lemma Next_frames_chain_below:
  "fst (Next_frames r (chain_below n k) b) = Inl io_EOF
   \<and> fst (snd (Next_frames r (chain_below n k) b)) = []"
  by (induction k arbitrary: b) (simp_all add: treeEntryIter_Next_chain_done)

lemma chain_entry_dir:
  "i < n \<Longrightarrow> chain_entry n i
     = \<lparr>TreeEntry.Name = ''d'', TreeEntry.Mode = 0x80004000, TreeEntry.Hash = hash_of (Suc i)\<rparr>"
  by (simp add: chain_entry_def)

lemma chain_entry_file:
  "chain_entry n n
     = \<lparr>TreeEntry.Name = ''f'', TreeEntry.Mode = 0x81A4, TreeEntry.Hash = hash_of 0\<rparr>"
  by (simp add: chain_entry_def)

lemma Next_chain_dir:
  assumes "Suc k < n" "n < 65536" "Suc (Suc k) \<le> maxTreeDepth"
  shows "TreeWalker_Next (chain_walker n k)
       = (Inr (chain_path (Suc k), chain_entry n (Suc k), TreeObj (chain_tree n (Suc (Suc k)))),
          chain_walker n (Suc k))"
proof -
  have r: "resolve (chain_repo n) (hash_of (Suc (Suc k))) = Inr (TreeObj (chain_tree n (Suc (Suc k))))"
    using assms by (intro resolve_chain_tree) simp_all
  have e: "TreeEntry.Hash (chain_entry n (Suc k)) = hash_of (Suc (Suc k))"
    "TreeEntry.Name (chain_entry n (Suc k)) = ''d''"
    using assms(1) by (simp_all add: chain_entry_dir)
  show ?thesis
    using assms(3)
    by (simp add: TreeWalker_Next_def chain_walker_def treeEntryIter_Next_chain_top e r
        length_chain_below Let_def)
qed

lemma Next_chain_too_deep:
  assumes "Suc k < n" "n < 65536" "maxTreeDepth < Suc (Suc k)"
  shows "TreeWalker_Next (chain_walker n k)
       = (Inl ErrMaxTreeDepth,
          (chain_walker n k)\<lparr>stack := chain_below n (Suc k)\<rparr>)"
proof -
  have r: "resolve (chain_repo n) (hash_of (Suc (Suc k))) = Inr (TreeObj (chain_tree n (Suc (Suc k))))"
    using assms by (intro resolve_chain_tree) simp_all
  have e: "TreeEntry.Hash (chain_entry n (Suc k)) = hash_of (Suc (Suc k))"
    "TreeEntry.Name (chain_entry n (Suc k)) = ''d''"
    using assms(1) by (simp_all add: chain_entry_dir)
  show ?thesis
    using assms(3)
    by (simp add: TreeWalker_Next_def chain_walker_def treeEntryIter_Next_chain_top e r
        length_chain_below Let_def)
qed

lemma Next_chain_file:
  "TreeWalker_Next (chain_walker (Suc k) k)
     = (Inr (path_Join (chain_path k) ''f'', chain_entry (Suc k) (Suc k),
             BlobObj (Blob_Decode (mem_object BlobObject (hash_of 0) ''hello''))),
        (chain_walker (Suc k) k)\<lparr>stack := chain_below (Suc k) (Suc k)\<rparr>)"
  by (simp add: TreeWalker_Next_def chain_walker_def treeEntryIter_Next_chain_top
      chain_entry_file resolve_chain_blob Let_def)

lemma Next_chain_end:
  "fst (TreeWalker_Next ((chain_walker n k)\<lparr>stack := chain_below n (Suc k)\<rparr>)) = Inl io_EOF
   \<and> stack (snd (TreeWalker_Next ((chain_walker n k)\<lparr>stack := chain_below n (Suc k)\<rparr>))) = []"
proof (cases "Next_frames (chain_repo n) (chain_below n (Suc k)) (chain_path k)")
  case (fields res frames b)
  with Next_frames_chain_below [of "chain_repo n" n "Suc k" "chain_path k"]
  have "res = Inl io_EOF" "frames = []"
    by simp_all
  with fields show ?thesis
    by (simp add: TreeWalker_Next_def chain_walker_def del: chain_below.simps Next_frames.simps)
qed

lemma walk_one_more:
  "walk k w = (names, None, w') \<Longrightarrow>
   walk (Suc k) w =
     (case TreeWalker_Next w' of
        (Inl err, w'') \<Rightarrow> (names, Some err, w'')
      | (Inr (name, e, obj), w'') \<Rightarrow> (names @ [name], None, w''))"
proof (induction k arbitrary: w names)
  case 0
  then show ?case
    by (auto split: prod.splits sum.splits)
next
  case (Suc k)
  show ?case
  proof (cases "TreeWalker_Next w")
    case (Pair res w1)
    show ?thesis
    proof (cases res)
      case (Inl err)
      with Pair Suc.prems show ?thesis by simp
    next
      case (Inr item)
      obtain name e obj where item: "item = (name, e, obj)"
        by (cases item)
      obtain ns r w2 where rest: "walk k w1 = (ns, r, w2)"
        by (cases "walk k w1")
      with Pair Inr item Suc.prems have names: "names = name # ns" "r = None" "w2 = w'"
        by simp_all
      from Suc.IH [of w1 ns] rest names
      have "walk (Suc k) w1 =
        (case TreeWalker_Next w' of
           (Inl err, w'') \<Rightarrow> (ns, Some err, w'')
         | (Inr (name, e, obj), w'') \<Rightarrow> (ns @ [name], None, w''))"
        by simp
      with Pair Inr item names show ?thesis
        by (simp del: walk.simps(2) add: walk.simps(2) [of "Suc k" w] split: prod.splits sum.splits)
    qed
  qed
qed

lemma walk_chain_dirs:
  assumes "n < 65536"
  shows "k < n \<Longrightarrow> Suc k \<le> maxTreeDepth \<Longrightarrow>
         walk k (chain_walker n 0) = (map chain_path [1..<Suc k], None, chain_walker n k)"
proof (induction k)
  case 0
  show ?case by simp
next
  case (Suc k)
  then have w: "walk k (chain_walker n 0) = (map chain_path [1..<Suc k], None, chain_walker n k)"
    by simp
  have "TreeWalker_Next (chain_walker n k)
       = (Inr (chain_path (Suc k), chain_entry n (Suc k), TreeObj (chain_tree n (Suc (Suc k)))),
          chain_walker n (Suc k))"
    using Suc.prems assms by (intro Next_chain_dir) simp_all
  with walk_one_more [OF w] show ?case
    by simp
qed

text \<open>
  C5.  On the walker of the specification.  Over 1025 nested directories of one entry
  each, the first 1023 calls of \<open>Next\<close> yield the directories below the root and
  leave the stack 1024 frames high; the call after them, which would push the 1025th
  frame, fails with \<open>ErrMaxTreeDepth\<close>.  Over 1024 nested directories, 1023 calls
  yield the directories, the next one yields the file in the innermost directory, and
  the one after that returns \<open>io.EOF\<close>: the walk is complete and no call fails with
  \<open>ErrMaxTreeDepth\<close>.
\<close>

theorem walker_depth_guard:
  "walk 1023 (NewTreeWalker (chain_repo 1025) (chain_root 1025))
     = (map chain_path [1..<1024], None, chain_walker 1025 1023)
   \<and> length (stack (chain_walker 1025 1023)) = 1024
   \<and> fst (TreeWalker_Next (chain_walker 1025 1023)) = Inl ErrMaxTreeDepth
   \<and> fst (snd (walk 1024 (NewTreeWalker (chain_repo 1025) (chain_root 1025))))
       = Some ErrMaxTreeDepth
   \<and> fst (walk 1025 (NewTreeWalker (chain_repo 1024) (chain_root 1024)))
       = map chain_path [1..<1024] @ [path_Join (chain_path 1023) ''f'']
   \<and> fst (snd (walk 1025 (NewTreeWalker (chain_repo 1024) (chain_root 1024))))
       = Some io_EOF"
proof -
  have deep: "walk 1023 (chain_walker 1025 0)
       = (map chain_path [1..<1024], None, chain_walker 1025 1023)"
    using walk_chain_dirs [of 1025 1023] by (simp add: maxTreeDepth_def)
  have height: "length (stack (chain_walker 1025 1023)) = 1024"
    by (simp add: chain_walker_def length_chain_below)
  have fails: "TreeWalker_Next (chain_walker 1025 1023)
       = (Inl ErrMaxTreeDepth, (chain_walker 1025 1023)\<lparr>stack := chain_below 1025 (Suc 1023)\<rparr>)"
    by (rule Next_chain_too_deep) (simp_all add: maxTreeDepth_def)
  have "walk (Suc 1023) (chain_walker 1025 0)
       = (map chain_path [1..<1024], Some ErrMaxTreeDepth,
          (chain_walker 1025 1023)\<lparr>stack := chain_below 1025 (Suc 1023)\<rparr>)"
    using walk_one_more [OF deep] by (simp only: fails prod.case sum.case)
  then have stopped: "fst (snd (walk 1024 (chain_walker 1025 0))) = Some ErrMaxTreeDepth"
    by (simp del: walk.simps chain_below.simps)
  have dirs: "walk 1023 (chain_walker (Suc 1023) 0)
       = (map chain_path [1..<1024], None, chain_walker (Suc 1023) 1023)"
    using walk_chain_dirs [of "Suc 1023" 1023] by (simp add: maxTreeDepth_def)
  have "walk (Suc 1023) (chain_walker (Suc 1023) 0)
       = (map chain_path [1..<1024] @ [path_Join (chain_path 1023) ''f''], None,
          (chain_walker (Suc 1023) 1023)\<lparr>stack := chain_below (Suc 1023) (Suc 1023)\<rparr>)"
    using walk_one_more [OF dirs] by (simp only: Next_chain_file prod.case sum.case)
  from walk_one_more [OF this] Next_chain_end [of "Suc 1023" 1023]
  have "fst (walk (Suc (Suc 1023)) (chain_walker (Suc 1023) 0))
       = map chain_path [1..<1024] @ [path_Join (chain_path 1023) ''f'']
     \<and> fst (snd (walk (Suc (Suc 1023)) (chain_walker (Suc 1023) 0))) = Some io_EOF"
    by (simp del: walk.simps chain_below.simps split: prod.splits)
  then have complete: "fst (walk 1025 (chain_walker 1024 0))
       = map chain_path [1..<1024] @ [path_Join (chain_path 1023) ''f'']"
    "fst (snd (walk 1025 (chain_walker 1024 0))) = Some io_EOF"
    by (simp_all del: walk.simps)
  from deep height fails stopped complete show ?thesis
    by (simp add: NewTreeWalker_chain del: walk.simps)
qed

theorem walker_depth_guard_witness:
  "fst (snd (walk 1024 (NewTreeWalker (chain_repo 1025) (chain_root 1025))))
     = Some ErrMaxTreeDepth
   \<and> length (fst (walk 1023 (NewTreeWalker (chain_repo 1025) (chain_root 1025)))) = 1023
   \<and> fst (snd (walk 1025 (NewTreeWalker (chain_repo 1024) (chain_root 1024)))) = Some io_EOF
   \<and> length (fst (walk 1025 (NewTreeWalker (chain_repo 1024) (chain_root 1024)))) = 1024"
  using walker_depth_guard by (simp del: walk.simps)

section \<open>ForEach\<close>

lemma ForEach_loop_prefix:
  "produced nxt w xs = Some w' \<Longrightarrow> delivered cb xs s = Some s' \<Longrightarrow>
   ForEach_loop nxt cb w s = ForEach_loop nxt cb w' s'"
proof (induction xs arbitrary: w s)
  case Nil
  then show ?case by simp
next
  case (Cons x xs)
  from Cons.prems(1) obtain w1 where
    n: "nxt w = Some (Inr x, w1)" and p: "produced nxt w1 xs = Some w'"
    by (auto split: option.splits sum.splits prod.splits if_splits)
  from Cons.prems(2) obtain s1 where
    c: "cb x s = (None, s1)" and d: "delivered cb xs s1 = Some s'"
    by (auto split: option.splits prod.splits)
  have "ForEach_loop nxt cb w s = ForEach_loop nxt cb w1 s1"
    by (subst ForEach_loop.simps) (simp add: n c)
  with Cons.IH [OF p d] show ?case
    by simp
qed

lemma ForEach_loop_Next_error:
  "nxt w = Some (Inl err, w') \<Longrightarrow>
   ForEach_loop nxt cb w s = Some (if err = io_EOF then None else Some err, w', s)"
  by (subst ForEach_loop.simps) simp

lemma ForEach_loop_callback_error:
  "nxt w = Some (Inr x, w') \<Longrightarrow> cb x s = (Some err, s') \<Longrightarrow>
   ForEach_loop nxt cb w s = Some (if err = ErrStop then None else Some err, w', s')"
  by (subst ForEach_loop.simps) simp

lemma ForEach_loop_ends:
  assumes "produced nxt w xs = Some w1" "delivered cb xs s = Some s1"
  shows "nxt w1 = Some (Inl err, w2) \<Longrightarrow>
         ForEach_loop nxt cb w s = Some (if err = io_EOF then None else Some err, w2, s1)"
    and "nxt w1 = Some (Inr x, w2) \<Longrightarrow> cb x s1 = (Some err, s2) \<Longrightarrow>
         ForEach_loop nxt cb w s = Some (if err = ErrStop then None else Some err, w2, s2)"
  by (simp_all add: ForEach_loop_prefix [OF assms] ForEach_loop_Next_error
      ForEach_loop_callback_error)

lemma FileIter_ForEach_receiver:
  "FileIter_ForEach impl iter cb s = Some (res, iter', i', s') \<Longrightarrow> iter' = iter"
  by (auto simp: FileIter_ForEach_def Let_def split: option.splits)

lemma counting_simps:
  "impl_New (counting impl) r t = (impl_New impl r t, 0)"
  "impl_r (counting impl) (w, c) = impl_r impl w"
  "impl_t (counting impl) (w, c) = impl_t impl w"
  "impl_Next (counting impl) (w, c) = (case impl_Next impl w of (res, w') \<Rightarrow> (res, (w', c)))"
  "impl_Close (counting impl) (w, c) = (impl_Close impl w, Suc c)"
  by (simp_all add: counting_def)

lemma TreeWalker_impl_simps:
  "impl_New TreeWalker_impl = NewTreeWalker"
  "impl_r TreeWalker_impl = walker_r"
  "impl_t TreeWalker_impl = walker_t"
  "impl_Next TreeWalker_impl = TreeWalker_Next"
  "impl_Close TreeWalker_impl = TreeWalker_Close"
  by (simp_all add: TreeWalker_impl_def)

lemma walker2_fields:
  "walker_r walker2_new = chain_repo 2" "walker_t walker2_new = chain_root 2"
  "walker_r walker2_in_d = chain_repo 2" "walker_t walker2_in_d = chain_root 2"
  "NewTreeWalker (chain_repo 2) (chain_root 2) = walker2_new"
  by (simp_all add: walker2_new_def walker2_in_d_def chain_walker_def NewTreeWalker_chain)

lemma Next_walker2_new:
  "TreeWalker_Next walker2_new
     = (Inr (''d'', chain_entry 2 (Suc 0), TreeObj (chain_tree 2 2)), walker2_in_d)"
proof -
  have "TreeWalker_Next (chain_walker 2 0)
      = (Inr (chain_path (Suc 0), chain_entry 2 (Suc 0), TreeObj (chain_tree 2 (Suc (Suc 0)))),
         chain_walker 2 (Suc 0))"
    by (rule Next_chain_dir) (simp_all add: maxTreeDepth_def)
  moreover have "chain_tree 2 (Suc (Suc 0)) = chain_tree 2 2"
    by (simp only: numeral_2_eq_2)
  ultimately show ?thesis
    by (simp add: walker2_new_def walker2_in_d_def path_Join_def)
qed

lemma Next_walker2_in_d:
  "TreeWalker_Next walker2_in_d
     = (Inr (''d/f'', chain_entry 2 2,
             BlobObj (Blob_Decode (mem_object BlobObject (hash_of 0) ''hello''))),
        walker2_past_f)"
proof -
  have "TreeWalker_Next (chain_walker (Suc (Suc 0)) (Suc 0))
     = (Inr (path_Join (chain_path (Suc 0)) ''f'', chain_entry (Suc (Suc 0)) (Suc (Suc 0)),
             BlobObj (Blob_Decode (mem_object BlobObject (hash_of 0) ''hello''))),
        (chain_walker (Suc (Suc 0)) (Suc 0))\<lparr>stack := chain_below (Suc (Suc 0)) (Suc (Suc 0))\<rparr>)"
    by (rule Next_chain_file)
  moreover have "path_Join (chain_path (Suc 0)) ''f'' = ''d/f''"
    by (simp add: path_Join_def)
  ultimately show ?thesis
    by (simp only: walker2_in_d_def walker2_past_f_def numeral_2_eq_2)
qed

lemma Next_walker2_past_f:
  "TreeWalker_Next walker2_past_f = (Inl io_EOF, walker2_end)"
proof -
  have "fst (TreeWalker_Next ((chain_walker 2 (Suc 0))\<lparr>stack := chain_below 2 (Suc (Suc 0))\<rparr>))
      = Inl io_EOF"
    using Next_chain_end [of 2 "Suc 0"] by (simp only:)
  then have "fst (TreeWalker_Next walker2_past_f) = Inl io_EOF"
    by (simp only: walker2_past_f_def numeral_2_eq_2)
  then show ?thesis
    by (simp add: walker2_end_def prod_eq_iff)
qed

lemma TreeIter_Next_walker2:
  "TreeIter_Next (counting TreeWalker_impl) (walker2_new, c)
     = Some (Inr (chain_tree 2 2), (walker2_in_d, c))"
  "TreeIter_Next (counting TreeWalker_impl) (walker2_in_d, c)
     = Some (Inl io_EOF, (walker2_end, c))"
proof -
  show "TreeIter_Next (counting TreeWalker_impl) (walker2_new, c)
     = Some (Inr (chain_tree 2 2), (walker2_in_d, c))"
    by (subst TreeIter_Next.simps)
       (simp add: counting_simps TreeWalker_impl_simps Next_walker2_new)
  have "TreeIter_Next (counting TreeWalker_impl) (walker2_past_f, c)
     = Some (Inl io_EOF, (walker2_end, c))"
    by (subst TreeIter_Next.simps)
       (simp add: counting_simps TreeWalker_impl_simps Next_walker2_past_f)
  then show "TreeIter_Next (counting TreeWalker_impl) (walker2_in_d, c)
     = Some (Inl io_EOF, (walker2_end, c))"
    by (subst TreeIter_Next.simps)
       (simp add: counting_simps TreeWalker_impl_simps Next_walker2_in_d)
qed

lemma FileIter_Next_walker2:
  "FileIter_Next (counting TreeWalker_impl) (walker2_new, c)
     = Some (Inr file_d_f, (walker2_past_f, c))"
  "FileIter_Next (counting TreeWalker_impl) (walker2_in_d, c)
     = Some (Inr file_d_f, (walker2_past_f, c))"
  "FileIter_Next (counting TreeWalker_impl) (walker2_past_f, c)
     = Some (Inl io_EOF, (walker2_end, c))"
proof -
  have f: "TreeEntry.Mode (chain_entry 2 2) = 0x81A4"
    by (simp add: chain_entry_def)
  show 2: "FileIter_Next (counting TreeWalker_impl) (walker2_in_d, c)
     = Some (Inr file_d_f, (walker2_past_f, c))"
    by (subst FileIter_Next.simps)
       (simp add: counting_simps TreeWalker_impl_simps Next_walker2_in_d file_d_f_def f)
  then show "FileIter_Next (counting TreeWalker_impl) (walker2_new, c)
     = Some (Inr file_d_f, (walker2_past_f, c))"
    by (subst FileIter_Next.simps)
       (simp add: counting_simps TreeWalker_impl_simps Next_walker2_new)
  show "FileIter_Next (counting TreeWalker_impl) (walker2_past_f, c)
     = Some (Inl io_EOF, (walker2_end, c))"
    by (subst FileIter_Next.simps)
       (simp add: counting_simps TreeWalker_impl_simps Next_walker2_past_f)
qed

lemma log_simps:
  "log_tree res (chain_tree 2 2) seen = (res, seen @ [hash_of 2])"
  "log_file res file_d_f seen = (res, seen @ [''d/f''])"
  by (simp_all add: log_tree_def log_file_def chain_tree_def file_d_f_def newFile_def)

lemma New_counting_walker2:
  "impl_New (counting TreeWalker_impl)
     (impl_r (counting TreeWalker_impl) (walker2_in_d, c))
     (impl_t (counting TreeWalker_impl) (walker2_in_d, c)) = (walker2_new, 0)"
  "impl_New (counting TreeWalker_impl)
     (impl_r (counting TreeWalker_impl) (walker2_new, c))
     (impl_t (counting TreeWalker_impl) (walker2_new, c)) = (walker2_new, 0)"
  by (simp_all add: counting_simps TreeWalker_impl_simps walker2_fields)

lemma Close_counting:
  "impl_Close (counting TreeWalker_impl) (w, c) = (TreeWalker_Close w, Suc c)"
  by (simp add: counting_simps TreeWalker_impl_simps)

lemma ForEach_loop_files_walker2:
  "ForEach_loop (FileIter_Next (counting TreeWalker_impl)) (log_file None) (walker2_new, 0) []
     = Some (None, (walker2_end, 0), [''d/f''])"
proof -
  have p: "produced (FileIter_Next (counting TreeWalker_impl)) (walker2_new, 0) [file_d_f]
         = Some (walker2_past_f, 0)"
    by (simp add: FileIter_Next_walker2)
  have d: "delivered (log_file None) [file_d_f] [] = Some [''d/f'']"
    by (simp add: log_simps)
  from ForEach_loop_ends(1) [OF p d FileIter_Next_walker2(3)] show ?thesis
    by simp
qed

text \<open>
  C6 (as amended).  For every \<open>ForEach\<close> on a \<open>TreeIter\<close> or a \<open>FileIter\<close>, with
  any callback: when the iterator the loop runs on produces some items and the callback,
  called once on each of them in this order, returns \<open>nil\<close> each time, then
  \<open>ForEach\<close> returns \<open>nil\<close> if \<open>Next\<close> reports \<open>io.EOF\<close> after them, and the
  error of \<open>Next\<close> if it reports another one; and if \<open>Next\<close> produces one more
  item, \<open>ForEach\<close> returns \<open>nil\<close> at once if the callback returns \<open>ErrStop\<close> on
  it, and the callback's error unchanged if it returns another one.  On each of these
  paths \<open>Close\<close> is applied exactly once, to the walker the loop ran on: for a
  \<open>TreeIter\<close> the receiver's; for a \<open>FileIter\<close> a walker that \<open>ForEach\<close>
  creates on the repository and root tree of the receiver, whose own walker comes back
  as it was, not closed.
\<close>

theorem ForEach_outcomes:
  assumes "produced (TreeIter_Next impl) iter ts = Some iter1"
    and "delivered cb ts s = Some s1"
    and "produced (FileIter_Next impl) (impl_New impl (impl_r impl fiter) (impl_t impl fiter)) fs
           = Some i1"
    and "delivered fcb fs u = Some u1"
  shows "(\<forall>err iter2. TreeIter_Next impl iter1 = Some (Inl err, iter2) \<longrightarrow>
            TreeIter_ForEach impl iter cb s
              = Some (if err = io_EOF then None else Some err, impl_Close impl iter2, s1))
       \<and> (\<forall>t iter2 err s2. TreeIter_Next impl iter1 = Some (Inr t, iter2) \<and> cb t s1 = (Some err, s2) \<longrightarrow>
            TreeIter_ForEach impl iter cb s
              = Some (if err = ErrStop then None else Some err, impl_Close impl iter2, s2))
       \<and> (\<forall>err i2. FileIter_Next impl i1 = Some (Inl err, i2) \<longrightarrow>
            FileIter_ForEach impl fiter fcb u
              = Some (if err = io_EOF then None else Some err, fiter, impl_Close impl i2, u1))
       \<and> (\<forall>f i2 err u2. FileIter_Next impl i1 = Some (Inr f, i2) \<and> fcb f u1 = (Some err, u2) \<longrightarrow>
            FileIter_ForEach impl fiter fcb u
              = Some (if err = ErrStop then None else Some err, fiter, impl_Close impl i2, u2))"
  by (auto simp: TreeIter_ForEach_def FileIter_ForEach_def Let_def
      ForEach_loop_ends [OF assms(1,2)] ForEach_loop_ends [OF assms(3,4)])

theorem ForEach_witness:
  "TreeIter_ForEach (counting TreeWalker_impl) (walker2_new, 0) (log_tree None) []
     = Some (None, (TreeWalker_Close walker2_end, 1), [hash_of 2])
   \<and> TreeIter_ForEach (counting TreeWalker_impl) (walker2_new, 0) (log_tree (Some ErrStop)) []
     = Some (None, (TreeWalker_Close walker2_in_d, 1), [hash_of 2])
   \<and> TreeIter_ForEach (counting TreeWalker_impl) (walker2_new, 0)
       (log_tree (Some (OtherError ''boom''))) []
     = Some (Some (OtherError ''boom''), (TreeWalker_Close walker2_in_d, 1), [hash_of 2])
   \<and> FileIter_ForEach (counting TreeWalker_impl) (walker2_in_d, 0) (log_file None) []
     = Some (None, (walker2_in_d, 0), (TreeWalker_Close walker2_end, 1), [''d/f''])
   \<and> FileIter_ForEach (counting TreeWalker_impl) (walker2_in_d, 0) (log_file (Some ErrStop)) []
     = Some (None, (walker2_in_d, 0), (TreeWalker_Close walker2_past_f, 1), [''d/f''])"
proof -
  let ?impl = "counting TreeWalker_impl"
  have t1: "produced (TreeIter_Next ?impl) (walker2_new, 0) [chain_tree 2 2]
          = Some (walker2_in_d, 0)"
    by (simp add: TreeIter_Next_walker2)
  have t2: "delivered (log_tree None) [chain_tree 2 2] [] = Some [hash_of 2]"
    by (simp add: log_simps)
  have f1: "produced (FileIter_Next ?impl)
              (impl_New ?impl (impl_r ?impl (walker2_in_d, 0)) (impl_t ?impl (walker2_in_d, 0)))
              [file_d_f] = Some (walker2_past_f, 0)"
    by (simp add: New_counting_walker2 FileIter_Next_walker2)
  have f2: "delivered (log_file None) [file_d_f] [] = Some [''d/f'']"
    by (simp add: log_simps)
  note exhausted = ForEach_outcomes [OF t1 t2 f1 f2]
  have t0: "produced (TreeIter_Next ?impl) (walker2_new, 0) [] = Some (walker2_new, 0)"
    by simp
  have f0: "produced (FileIter_Next ?impl)
              (impl_New ?impl (impl_r ?impl (walker2_in_d, 0)) (impl_t ?impl (walker2_in_d, 0)))
              [] = Some (walker2_new, 0)"
    by (simp add: New_counting_walker2)
  have d0: "delivered cb [] [] = Some []" for cb :: "'a \<Rightarrow> 'b list \<Rightarrow> error option \<times> 'b list"
    by simp
  note stopped = ForEach_outcomes [OF t0 d0 f0 d0,
      where cb = "log_tree (Some ErrStop)" and fcb = "log_file (Some ErrStop)"]
  note failed = ForEach_outcomes [OF t0 d0 f0 d0,
      where cb = "log_tree (Some (OtherError ''boom''))" and fcb = "log_file (Some ErrStop)"]
  from exhausted have 1:
    "TreeIter_ForEach ?impl (walker2_new, 0) (log_tree None) []
       = Some (None, (TreeWalker_Close walker2_end, 1), [hash_of 2])"
    by (simp add: TreeIter_Next_walker2 Close_counting)
  from exhausted have 4:
    "FileIter_ForEach ?impl (walker2_in_d, 0) (log_file None) []
       = Some (None, (walker2_in_d, 0), (TreeWalker_Close walker2_end, 1), [''d/f''])"
    by (simp add: FileIter_Next_walker2 Close_counting)
  from stopped have 2:
    "TreeIter_ForEach ?impl (walker2_new, 0) (log_tree (Some ErrStop)) []
       = Some (None, (TreeWalker_Close walker2_in_d, 1), [hash_of 2])"
    by (simp add: TreeIter_Next_walker2 Close_counting log_simps)
  from stopped have 5:
    "FileIter_ForEach ?impl (walker2_in_d, 0) (log_file (Some ErrStop)) []
       = Some (None, (walker2_in_d, 0), (TreeWalker_Close walker2_past_f, 1), [''d/f''])"
    by (simp add: FileIter_Next_walker2 Close_counting log_simps)
  from failed have 3:
    "TreeIter_ForEach ?impl (walker2_new, 0) (log_tree (Some (OtherError ''boom''))) []
       = Some (Some (OtherError ''boom''), (TreeWalker_Close walker2_in_d, 1), [hash_of 2])"
    by (simp add: TreeIter_Next_walker2 Close_counting log_simps)
  from 1 2 3 4 5 show ?thesis
    by simp
qed

text \<open>
  The claim as first stated fails for \<open>FileIter\<close>: when \<open>ForEach\<close> has returned,
  the receiver's walker counts no call of \<open>Close\<close> and still holds the frame of its
  root, which closing would release; the walker that was closed once is the one
  \<open>ForEach\<close> created.
\<close>

theorem FileIter_ForEach_leaves_receiver_open:
  "FileIter_ForEach (counting TreeWalker_impl) (walker2_new, 0) (log_file None) []
     = Some (None, (walker2_new, 0), (TreeWalker_Close walker2_end, 1), [''d/f''])
   \<and> length (stack walker2_new) = 1
   \<and> stack (TreeWalker_Close walker2_new) = []"
  by (simp add: FileIter_ForEach_def New_counting_walker2 ForEach_loop_files_walker2
      Close_counting)
     (simp add: walker2_new_def chain_walker_def TreeWalker_Close_def)

text \<open>
  C9.  \<open>FileIter.ForEach\<close> runs its loop on a new walker, created on the repository
  and root tree of the receiver's walker, and closes that walker; the receiver comes
  back unchanged whatever the outcome, so that \<open>Next\<close> on it afterwards does what it
  would have done before the call; and what \<open>ForEach\<close> returns, delivers and closes
  depends on the repository and root tree of the receiver only, not on how far the
  receiver had advanced.
\<close>

theorem FileIter_ForEach_private_walker:
  "FileIter_ForEach impl iter cb s =
     (case ForEach_loop (FileIter_Next impl) cb
             (impl_New impl (impl_r impl iter) (impl_t impl iter)) s of
        None \<Rightarrow> None
      | Some (res, i', s') \<Rightarrow> Some (res, iter, impl_Close impl i', s'))
   \<and> (\<forall>res iter' i' s'. FileIter_ForEach impl iter cb s = Some (res, iter', i', s') \<longrightarrow>
         iter' = iter \<and> FileIter_Next impl iter' = FileIter_Next impl iter)
   \<and> (impl_r impl other = impl_r impl iter \<and> impl_t impl other = impl_t impl iter \<longrightarrow>
         map_option (\<lambda>(res, iter', i', s'). (res, i', s')) (FileIter_ForEach impl other cb s)
       = map_option (\<lambda>(res, iter', i', s'). (res, i', s')) (FileIter_ForEach impl iter cb s))"
  by (auto simp: FileIter_ForEach_def Let_def split: option.splits)

theorem FileIter_ForEach_private_walker_witness:
  "FileIter_ForEach (counting TreeWalker_impl) (walker2_in_d, 0) (log_file None) []
     = Some (None, (walker2_in_d, 0), (TreeWalker_Close walker2_end, 1), [''d/f''])
   \<and> FileIter_Next (counting TreeWalker_impl) (walker2_in_d, 0)
     = Some (Inr file_d_f, (walker2_past_f, 0))
   \<and> map_option (\<lambda>(res, iter', i', s'). (res, i', s'))
       (FileIter_ForEach (counting TreeWalker_impl) (walker2_new, 0) (log_file None) [])
     = Some (None, (TreeWalker_Close walker2_end, 1), [''d/f''])"
proof -
  let ?impl = "counting TreeWalker_impl"
  note own = FileIter_ForEach_private_walker
      [where impl = ?impl and iter = "(walker2_in_d, 0)" and cb = "log_file None" and s = "[]"
         and other = "(walker2_new, 0)"]
  from own have 1:
    "FileIter_ForEach ?impl (walker2_in_d, 0) (log_file None) []
       = Some (None, (walker2_in_d, 0), (TreeWalker_Close walker2_end, 1), [''d/f''])"
    by (simp add: New_counting_walker2 ForEach_loop_files_walker2 Close_counting)
  have same: "impl_r ?impl (walker2_new, 0) = impl_r ?impl (walker2_in_d, 0)"
    "impl_t ?impl (walker2_new, 0) = impl_t ?impl (walker2_in_d, 0)"
    by (simp_all add: counting_simps TreeWalker_impl_simps walker2_fields)
  with own have
    "map_option (\<lambda>(res, iter', i', s'). (res, i', s'))
         (FileIter_ForEach ?impl (walker2_new, 0) (log_file None) [])
       = map_option (\<lambda>(res, iter', i', s'). (res, i', s'))
         (FileIter_ForEach ?impl (walker2_in_d, 0) (log_file None) [])"
    by blast
  with 1 have 3:
    "map_option (\<lambda>(res, iter', i', s'). (res, i', s'))
         (FileIter_ForEach ?impl (walker2_new, 0) (log_file None) [])
       = Some (None, (TreeWalker_Close walker2_end, 1), [''d/f''])"
    by simp
  from 1 3 FileIter_Next_walker2(2) [of 0] show ?thesis
    by simp
qed

end
